theory Spec2Isabelle
  imports Main
begin

section \<open>Configuration\<close>

text \<open>
  Python strings are modelled as \<^typ>\<open>string\<close>, a list of 8-bit characters read as the
  code points below 256. The flair \<^verbatim>\<open>DALL.E 2\<close> holds the middle dot U+00B7.
\<close>

definition DALLE_SUBR :: string where
  "DALLE_SUBR = ''dalle2''"

definition MIDJ_SUBR :: string where
  "MIDJ_SUBR = ''midjourney''"

definition AIART_SUBR :: string where
  "AIART_SUBR = ''aiArt''"

definition SUBREDDITS :: "string list" where
  "SUBREDDITS = [DALLE_SUBR, MIDJ_SUBR, AIART_SUBR]"

definition CONTENT_TYPE_MAP :: "string \<rightharpoonup> string" where
  "CONTENT_TYPE_MAP =
     [''.jpg'' \<mapsto> ''image/jpeg'', ''.jpeg'' \<mapsto> ''image/jpeg'', ''.png'' \<mapsto> ''image/png'']"

definition FLAIR_DICT :: "string \<rightharpoonup> string set" where
  "FLAIR_DICT =
     [DALLE_SUBR \<mapsto> {''DALL'' @ [CHR 0xB7] @ ''E 2'', ''DALL'' @ [CHR 0xB7] @ ''E 3''},
      MIDJ_SUBR \<mapsto> {''AI Showcase - Midjourney''},
      AIART_SUBR \<mapsto> {''Image - DALL E 3 :a2:'', ''Image - Midjourney :a2:''}]"

definition AIART_MAP :: "string \<rightharpoonup> string" where
  "AIART_MAP =
     [''Image - DALL E 3 :a2:'' \<mapsto> DALLE_SUBR, ''Image - Midjourney :a2:'' \<mapsto> MIDJ_SUBR]"

definition image_extensions :: "string list" where
  "image_extensions = [''.jpg'', ''.jpeg'', ''.png'']"

section \<open>String operations of the Python library\<close>

text \<open>\<^verbatim>\<open>str.endswith\<close>, with one suffix and with a tuple of suffixes.\<close>

definition endswith :: "string \<Rightarrow> string \<Rightarrow> bool" where
  "endswith s suf = (length suf \<le> length s \<and> drop (length s - length suf) s = suf)"

definition endswith_any :: "string \<Rightarrow> string list \<Rightarrow> bool" where
  "endswith_any s sufs = list_ex (endswith s) sufs"

text \<open>
  \<^verbatim>\<open>str.lower\<close> on the code points below 256: the ASCII capitals and the Latin-1
  capitals (0xC0 to 0xDE, the multiplication sign 0xD7 apart) move up by 32.
\<close>

definition lower_char :: "char \<Rightarrow> char" where
  "lower_char c =
     (let n = (of_char c :: nat)
      in if (65 \<le> n \<and> n \<le> 90) \<or> (192 \<le> n \<and> n \<le> 222 \<and> n \<noteq> 215)
         then char_of (n + 32) else c)"

definition lower :: "string \<Rightarrow> string" where
  "lower s = map lower_char s"

text \<open>
  \<^verbatim>\<open>urllib.parse.urlparse(url).path\<close>. The library strips leading control characters
  and spaces, removes tab, carriage return and line feed, splits off a scheme
  (letters, digits, \<^verbatim>\<open>+-.\<close> before the first colon, starting with a letter), a network
  location after \<^verbatim>\<open>//\<close>, the fragment after the first \<^verbatim>\<open>#\<close>, the query after the first
  \<^verbatim>\<open>?\<close>, and the parameters after the first \<^verbatim>\<open>;\<close> of the last path segment. It raises
  \<^verbatim>\<open>ValueError\<close> on a network location with one square bracket but not the other;
  its further validation of a bracketed host and of non-ASCII hosts is left out.
\<close>

definition after_last :: "char \<Rightarrow> string \<Rightarrow> string" where
  "after_last c s = rev (takeWhile (\<lambda>x. x \<noteq> c) (rev s))"

definition upto_last :: "char \<Rightarrow> string \<Rightarrow> string" where
  "upto_last c s = rev (dropWhile (\<lambda>x. x \<noteq> c) (rev s))"

definition scheme_char :: "char \<Rightarrow> bool" where
  "scheme_char c =
     (let n = (of_char c :: nat)
      in (65 \<le> n \<and> n \<le> 90) \<or> (97 \<le> n \<and> n \<le> 122) \<or> (48 \<le> n \<and> n \<le> 57)
         \<or> c = CHR ''+'' \<or> c = CHR ''-'' \<or> c = CHR ''.'')"

definition ascii_alpha :: "char \<Rightarrow> bool" where
  "ascii_alpha c =
     (let n = (of_char c :: nat) in (65 \<le> n \<and> n \<le> 90) \<or> (97 \<le> n \<and> n \<le> 122))"

definition uses_params :: "string list" where
  "uses_params = ['''', ''ftp'', ''hdl'', ''prospero'', ''http'', ''imap'', ''https'',
     ''shttp'', ''rtsp'', ''rtsps'', ''rtspu'', ''sip'', ''sips'', ''mms'', ''sftp'', ''tel'']"

definition split_scheme :: "string \<Rightarrow> string \<times> string" where
  "split_scheme u =
     (let head = takeWhile (\<lambda>x. x \<noteq> CHR '':'') u
      in if CHR '':'' \<in> set u \<and> head \<noteq> [] \<and> ascii_alpha (hd head) \<and> list_all scheme_char head
         then (lower head, drop (length head + 1) u)
         else ('''', u))"

definition split_netloc :: "string \<Rightarrow> string \<times> string" where
  "split_netloc u =
     (if take 2 u = ''//''
      then (let rest = drop 2 u;
                netloc = takeWhile (\<lambda>x. x \<noteq> CHR ''/'' \<and> x \<noteq> CHR ''?'' \<and> x \<noteq> CHR ''#'') rest
            in (netloc, drop (length netloc) rest))
      else ('''', u))"

definition urlparse_path :: "string \<Rightarrow> string option" where
  "urlparse_path url =
     (let u0 = dropWhile (\<lambda>c. (of_char c :: nat) \<le> 32) url;
          u1 = filter (\<lambda>c. c \<noteq> CHR 0x09 \<and> c \<noteq> CHR 0x0A \<and> c \<noteq> CHR 0x0D) u0;
          (scheme, u2) = split_scheme u1;
          (netloc, u3) = split_netloc u2
      in if (CHR ''['' \<in> set netloc) \<noteq> (CHR '']'' \<in> set netloc) then None
         else (let u4 = takeWhile (\<lambda>x. x \<noteq> CHR ''#'') u3;
                   u5 = takeWhile (\<lambda>x. x \<noteq> CHR ''?'') u4
               in if scheme \<in> set uses_params
                  then Some (upto_last CHR ''/'' u5 @ takeWhile (\<lambda>x. x \<noteq> CHR '';'') (after_last CHR ''/'' u5))
                  else Some u5))"

text \<open>
  \<^verbatim>\<open>os.path.splitext\<close> (POSIX): the extension starts at the last dot of the last path
  segment, unless only dots come before it in that segment.
\<close>

definition splitext :: "string \<Rightarrow> string \<times> string" where
  "splitext p =
     (let base = after_last CHR ''/'' p;
          tail = after_last CHR ''.'' base;
          stem = take (length base - length tail - 1) base
      in if CHR ''.'' \<in> set base \<and> list_ex (\<lambda>c. c \<noteq> CHR ''.'') stem
         then (take (length p - length tail - 1) p, CHR ''.'' # tail)
         else (p, ''''))"

section \<open>Helper functions of the collector\<close>

text \<open>\<^verbatim>\<open>get_file_extension\<close>, the same in both files; \<open>None\<close> is the \<^verbatim>\<open>ValueError\<close> of \<^verbatim>\<open>urlparse\<close>.\<close>

definition get_file_extension :: "string \<Rightarrow> string option" where
  "get_file_extension url =
     (case urlparse_path url of
        None \<Rightarrow> None
      | Some path \<Rightarrow>
          (let ext = snd (splitext path)
           in Some (if ext \<noteq> '''' then lower ext else ''.jpg'')))"

text \<open>
  The target folder of a submission: \<^verbatim>\<open>AIART_MAP[submission.link_flair_text]\<close> for the
  aggregating subreddit, the subreddit itself otherwise. \<open>None\<close> is the \<^verbatim>\<open>KeyError\<close>
  of the dictionary lookup.
\<close>

definition target_subr_of :: "string \<Rightarrow> string option \<Rightarrow> string option" where
  "target_subr_of subr flair_text =
     (if subr = AIART_SUBR
      then (case flair_text of None \<Rightarrow> None | Some t \<Rightarrow> AIART_MAP t)
      else Some subr)"

definition content_type_of :: "string \<Rightarrow> string" where
  "content_type_of original_ext =
     (case CONTENT_TYPE_MAP original_ext of None \<Rightarrow> ''image/jpeg'' | Some t \<Rightarrow> t)"

section \<open>Data model\<close>

text \<open>
  A submission as the feed yields it. \<open>link_flair_text\<close> is \<open>None\<close> for a post without
  flair. \<open>created_utc\<close> is in epoch seconds.
\<close>

record submission =
  post_id :: string
  link_flair_text :: "string option"
  post_url :: string
  over_18 :: bool
  created_utc :: int

text \<open>
  A row of \<^verbatim>\<open>metadata.csv\<close> has the columns \<^verbatim>\<open>submission_id, filename, url, subreddit, date\<close>.
  The entry of \<^verbatim>\<open>new_images\<close> has in addition the key \<^verbatim>\<open>target_subr\<close>. The \<open>date\<close>
  column holds the creation time; its rendering by \<^verbatim>\<open>datetime.fromtimestamp(...).isoformat()\<close>
  is not modelled, the field keeps the epoch seconds. The timestamps of the feed are
  taken to lie in the range that \<^verbatim>\<open>datetime.fromtimestamp\<close> accepts, so that the rendering
  does not raise. The key \<^verbatim>\<open>flair\<close> that the local variant adds to the entry is never
  read and is left out.
\<close>

record row =
  submission_id :: string
  filename :: string
  url :: string
  subreddit :: string
  date :: int

record image = row +
  target_subr :: string

definition row_of :: "image \<Rightarrow> row" where
  "row_of img = \<lparr>submission_id = submission_id img, filename = filename img, url = url img,
     subreddit = subreddit img, date = date img\<rparr>"

text \<open>
  The \<^verbatim>\<open>stats\<close> dictionary of one pass, together with the storage the pass writes to.
  \<open>images\<close> is the list \<^verbatim>\<open>new_images\<close>, which the source assigns to \<^verbatim>\<open>stats['images']\<close>
  when the loop is over. Python integers are unbounded: the counters are \<^typ>\<open>int\<close>.
\<close>

record 'st pass =
  stats_subreddit :: string
  checked :: int
  passed_flair :: int
  passed_image :: int
  passed_nsfw :: int
  new_images :: int
  download_errors :: int
  images :: "image list"
  storage :: 'st

datatype error = KeyError | FileNotFoundError | EmptyDataError | ReadError | WriteError

datatype log_entry =
    WarnNoMetadata string
  | WarnCouldNotRead string
  | InfoFound nat string
  | InfoSkipping string
  | InfoUpdated string nat
  | ErrorUpdating string error

section \<open>The outside world\<close>

text \<open>
  \<^verbatim>\<open>requests.get(url, timeout=10)\<close> either raises (connection error, timeout: \<open>None\<close>) or
  returns a response with a status code and a body; the source reads the body only.
  \<open>put_raises\<close> tells for which keys a write to the storage raises.
\<close>

datatype response = Response (status_code: nat) (content: string)

record world =
  http_get :: "string \<Rightarrow> response option"
  put_raises :: "string \<Rightarrow> bool"

subsection \<open>The bucket of the scheduled variant\<close>

text \<open>
  A metadata blob is either unreadable (download, decoding or \<^verbatim>\<open>pd.read_csv\<close> raises) or
  a table with the five columns; a blob that does not exist is \<open>None\<close> in the map.
  Rows are read back as they were written.
\<close>

datatype csv_blob = Unreadable | Table "row list"

record bucket =
  blobs :: "string \<rightharpoonup> string \<times> string"
  metadata :: "string \<rightharpoonup> csv_blob"

definition gcs_put :: "world \<Rightarrow> string \<Rightarrow> string \<Rightarrow> string \<Rightarrow> string \<Rightarrow> bucket \<Rightarrow> bool \<times> bucket" where
  "gcs_put w target fname original_ext body b =
     (let key = target @ ''/'' @ fname
      in if put_raises w key then (False, b)
         else (True, b\<lparr>blobs := (blobs b)(key \<mapsto> (body, content_type_of original_ext))\<rparr>))"

subsection \<open>The data directory of the local variant\<close>

text \<open>
  \<open>dirs\<close> holds the subreddit folders that exist under \<^verbatim>\<open>DATA_DIR\<close>, \<open>files\<close> the image
  files by their path, \<open>csvs\<close> the \<^verbatim>\<open>metadata.csv\<close> of each folder as its lines.
\<close>

datatype csv_line = Header | Row row

record local_fs =
  dirs :: "string set"
  files :: "string \<rightharpoonup> string"
  csvs :: "string \<rightharpoonup> csv_line list"

text \<open>
  The folder is made (\<^verbatim>\<open>mkdir(parents=True, exist_ok=True)\<close>) before the file is opened;
  a write that raises leaves the folder and no file.
\<close>

definition local_put :: "world \<Rightarrow> string \<Rightarrow> string \<Rightarrow> string \<Rightarrow> string \<Rightarrow> local_fs \<Rightarrow> bool \<times> local_fs" where
  "local_put w target fname original_ext body fs =
     (let fs1 = fs\<lparr>dirs := insert target (dirs fs)\<rparr>;
          key = target @ ''/'' @ fname
      in if put_raises w key then (False, fs1)
         else (True, fs1\<lparr>files := (files fs1)(key \<mapsto> body)\<rparr>))"

section \<open>The Dedup Index loaders\<close>

text \<open>\<^verbatim>\<open>get_gcs_submission_ids\<close>: every exception is caught and logged as a warning.\<close>

definition get_gcs_submission_ids :: "string \<Rightarrow> bucket \<Rightarrow> string set \<times> log_entry list" where
  "get_gcs_submission_ids subr b =
     (case metadata b subr of
        None \<Rightarrow> ({}, [WarnNoMetadata subr])
      | Some Unreadable \<Rightarrow> ({}, [WarnCouldNotRead subr])
      | Some (Table rs) \<Rightarrow> (set (map submission_id rs), []))"

text \<open>
  \<^verbatim>\<open>pd.read_csv(metadata_path)["submission_id"]\<close> on a file of lines: an empty file raises
  \<^verbatim>\<open>EmptyDataError\<close>; the first line is taken as the header, and a data row there gives
  no column \<^verbatim>\<open>submission_id\<close> (\<^verbatim>\<open>KeyError\<close>); a header line further down is read as data.
\<close>

definition line_id :: "csv_line \<Rightarrow> string" where
  "line_id l = (case l of Header \<Rightarrow> ''submission_id'' | Row r \<Rightarrow> submission_id r)"

definition read_submission_ids :: "csv_line list \<Rightarrow> error + string list" where
  "read_submission_ids ls =
     (case ls of
        [] \<Rightarrow> Inl EmptyDataError
      | Row r # rest \<Rightarrow> Inl KeyError
      | Header # rest \<Rightarrow> Inr (map line_id rest))"

text \<open>
  \<^verbatim>\<open>get_existing_image_ids_local\<close>: only the missing folder is guarded; a missing or
  malformed file raises out of the function (\<open>Inl\<close>).
\<close>

definition get_existing_image_ids_local :: "string \<Rightarrow> local_fs \<Rightarrow> error + string set \<times> log_entry list" where
  "get_existing_image_ids_local subr fs =
     (if subr \<notin> dirs fs then Inr ({}, [WarnNoMetadata subr])
      else (case csvs fs subr of
              None \<Rightarrow> Inl FileNotFoundError
            | Some ls \<Rightarrow>
                (case read_submission_ids ls of
                   Inl e \<Rightarrow> Inl e
                 | Inr ids \<Rightarrow> Inr (set ids, [InfoFound (card (set ids)) subr]))))"

section \<open>The collection pass\<close>

text \<open>
  The flair test of the two variants. The scheduled one also rejects an empty flair
  text (\<^verbatim>\<open>not submission.link_flair_text\<close>).
\<close>

definition passes_flair_gcs :: "string set \<Rightarrow> submission \<Rightarrow> bool" where
  "passes_flair_gcs flair s =
     (case link_flair_text s of None \<Rightarrow> False | Some t \<Rightarrow> t \<noteq> '''' \<and> t \<in> flair)"

definition passes_flair_local :: "string set \<Rightarrow> submission \<Rightarrow> bool" where
  "passes_flair_local flair s =
     (case link_flair_text s of None \<Rightarrow> False | Some t \<Rightarrow> t \<in> flair)"

definition passes_image :: "submission \<Rightarrow> bool" where
  "passes_image s = endswith_any (post_url s) image_extensions"

text \<open>
  The body of the \<^verbatim>\<open>try\<close> block, the same in both variants but for the write, which is
  the parameter \<open>put\<close>. The result is the new entry of \<^verbatim>\<open>new_images\<close>, or \<open>None\<close> when
  an exception was raised, and the storage as the block leaves it.
\<close>

definition download ::
  "(world \<Rightarrow> string \<Rightarrow> string \<Rightarrow> string \<Rightarrow> string \<Rightarrow> 'st \<Rightarrow> bool \<times> 'st) \<Rightarrow>
     world \<Rightarrow> string \<Rightarrow> submission \<Rightarrow> 'st \<Rightarrow> image option \<times> 'st" where
  "download put w subr s st =
     (case http_get w (post_url s) of
        None \<Rightarrow> (None, st)
      | Some resp \<Rightarrow>
          (case get_file_extension (post_url s) of
             None \<Rightarrow> (None, st)
           | Some original_ext \<Rightarrow>
               (case target_subr_of subr (link_flair_text s) of
                  None \<Rightarrow> (None, st)
                | Some target \<Rightarrow>
                    (let fname = ''img_'' @ target @ ''_'' @ post_id s @ original_ext;
                         (ok, st') = put w target fname original_ext (content resp) st
                     in if ok
                        then (Some \<lparr>submission_id = post_id s, filename = fname,
                                url = post_url s, subreddit = subr, date = created_utc s,
                                target_subr = target\<rparr>, st')
                        else (None, st')))))"

text \<open>One turn of the loop over \<^verbatim>\<open>subreddit.new(limit=1000)\<close>.\<close>

definition process ::
  "(world \<Rightarrow> string \<Rightarrow> string \<Rightarrow> string \<Rightarrow> string \<Rightarrow> 'st \<Rightarrow> bool \<times> 'st) \<Rightarrow>
     (submission \<Rightarrow> bool) \<Rightarrow> world \<Rightarrow> string \<Rightarrow> string set \<Rightarrow> 'st pass \<Rightarrow> submission \<Rightarrow> 'st pass" where
  "process put flair_ok w subr existing_ids p s =
     (let p1 = p\<lparr>checked := checked p + 1\<rparr>
      in if \<not> flair_ok s then p1
         else (let p2 = p1\<lparr>passed_flair := passed_flair p1 + 1\<rparr>
               in if \<not> passes_image s then p2
                  else (let p3 = p2\<lparr>passed_image := passed_image p2 + 1\<rparr>
                        in if over_18 s then p3
                           else (let p4 = p3\<lparr>passed_nsfw := passed_nsfw p3 + 1\<rparr>
                                 in if post_id s \<in> existing_ids then p4
                                    else (case download put w subr s (storage p4) of
                                            (Some img, st') \<Rightarrow>
                                              p4\<lparr>new_images := new_images p4 + 1,
                                                 images := images p4 @ [img], storage := st'\<rparr>
                                          | (None, st') \<Rightarrow>
                                              p4\<lparr>download_errors := download_errors p4 + 1,
                                                 storage := st'\<rparr>)))))"

definition fresh_pass :: "string \<Rightarrow> 'st \<Rightarrow> 'st pass" where
  "fresh_pass subr st = \<lparr>stats_subreddit = subr, checked = 0, passed_flair = 0,
     passed_image = 0, passed_nsfw = 0, new_images = 0, download_errors = 0,
     images = [], storage = st\<rparr>"

text \<open>
  \<^verbatim>\<open>upload_new_images_to_gcs\<close>. \<open>feed\<close> is the sequence that \<^verbatim>\<open>subreddit.new(limit=1000)\<close>
  yields. \<^verbatim>\<open>FLAIR_DICT[subr]\<close> raises for a subreddit that is not configured.
\<close>

definition upload_new_images_to_gcs ::
  "world \<Rightarrow> string \<Rightarrow> submission list \<Rightarrow> bucket \<Rightarrow> error + bucket pass" where
  "upload_new_images_to_gcs w subr feed b =
     (case FLAIR_DICT subr of
        None \<Rightarrow> Inl KeyError
      | Some flair \<Rightarrow>
          (let existing_ids = fst (get_gcs_submission_ids subr b)
           in Inr (foldl (process gcs_put (passes_flair_gcs flair) w subr existing_ids)
                     (fresh_pass subr b) feed)))"

text \<open>\<^verbatim>\<open>collect_new_images_from_subreddit_local\<close>; the loader is not guarded.\<close>

definition collect_new_images_from_subreddit_local ::
  "world \<Rightarrow> string \<Rightarrow> string set \<Rightarrow> submission list \<Rightarrow> local_fs \<Rightarrow> error + local_fs pass" where
  "collect_new_images_from_subreddit_local w subr flair feed fs =
     (case get_existing_image_ids_local subr fs of
        Inl e \<Rightarrow> Inl e
      | Inr (existing_ids, lg) \<Rightarrow>
          Inr (foldl (process local_put (passes_flair_local flair) w subr existing_ids)
                 (fresh_pass subr fs) feed))"

section \<open>The metadata merge\<close>

text \<open>
  \<^verbatim>\<open>images_by_target\<close>: a dictionary keeps its keys in the order of their first insertion,
  so the groups are an association list.
\<close>

fun group_add :: "image \<Rightarrow> (string \<times> image list) list \<Rightarrow> (string \<times> image list) list" where
  "group_add img [] = [(target_subr img, [img])]"
| "group_add img ((t, imgs) # gs) =
     (if t = target_subr img then (t, imgs @ [img]) # gs else (t, imgs) # group_add img gs)"

definition images_by_target :: "image list \<Rightarrow> (string \<times> image list) list" where
  "images_by_target new_imgs = foldl (\<lambda>gs img. group_add img gs) [] new_imgs"

text \<open>
  The body of the loop of \<^verbatim>\<open>update_metadata_csv\<close> for one target: read the blob if it
  exists, put the new rows after the old ones, upload the whole table.
\<close>

definition merge_gcs :: "world \<Rightarrow> string \<Rightarrow> image list \<Rightarrow> bucket \<Rightarrow> error + bucket" where
  "merge_gcs w target imgs b =
     (case metadata b target of
        Some Unreadable \<Rightarrow> Inl ReadError
      | df_existing \<Rightarrow>
          (let df_new = map row_of imgs;
               df_combined = (case df_existing of Some (Table rs) \<Rightarrow> rs @ df_new | _ \<Rightarrow> df_new)
           in if put_raises w (target @ ''/metadata.csv'') then Inl WriteError
              else Inr (b\<lparr>metadata := (metadata b)(target \<mapsto> Table df_combined)\<rparr>)))"

text \<open>
  The body of the loop of \<^verbatim>\<open>update_metadata_csv_local\<close> for one target: the file is
  opened for appending, which raises when its folder is missing; the header is written
  only to a new file. A write that raises is taken to write nothing.
\<close>

definition merge_local :: "world \<Rightarrow> string \<Rightarrow> image list \<Rightarrow> local_fs \<Rightarrow> error + local_fs" where
  "merge_local w target imgs fs =
     (let file_exists = (csvs fs target \<noteq> None)
      in if target \<notin> dirs fs then Inl FileNotFoundError
         else if put_raises w (target @ ''/metadata.csv'') then Inl WriteError
         else Inr (fs\<lparr>csvs := (csvs fs)(target \<mapsto>
                 (case csvs fs target of None \<Rightarrow> [] | Some ls \<Rightarrow> ls)
                 @ (if \<not> file_exists then [Header] else [])
                 @ map (\<lambda>img. Row (row_of img)) imgs)\<rparr>))"

text \<open>
  The loop over the groups inside the one \<^verbatim>\<open>try\<close> block: the first exception leaves the
  loop, with the storage as the earlier turns left it.
\<close>

fun merge_targets ::
  "(string \<Rightarrow> image list \<Rightarrow> 'st \<Rightarrow> error + 'st) \<Rightarrow> (string \<times> image list) list \<Rightarrow>
     'st \<times> log_entry list \<Rightarrow> error option \<times> 'st \<times> log_entry list" where
  "merge_targets m [] (st, lg) = (None, st, lg)"
| "merge_targets m ((t, imgs) # gs) (st, lg) =
     (case m t imgs st of
        Inl e \<Rightarrow> (Some e, st, lg)
      | Inr st' \<Rightarrow> merge_targets m gs (st', lg @ [InfoUpdated t (length imgs)]))"

definition update_metadata ::
  "(string \<Rightarrow> image list \<Rightarrow> 'st \<Rightarrow> error + 'st) \<Rightarrow> string \<Rightarrow> image list \<Rightarrow> 'st \<Rightarrow> 'st \<times> log_entry list" where
  "update_metadata m subr new_imgs st =
     (if new_imgs = [] then (st, [InfoSkipping subr])
      else (case merge_targets m (images_by_target new_imgs) (st, []) of
              (None, st', lg) \<Rightarrow> (st', lg)
            | (Some e, st', lg) \<Rightarrow> (st', lg @ [ErrorUpdating subr e])))"

definition update_metadata_csv :: "world \<Rightarrow> string \<Rightarrow> image list \<Rightarrow> bucket \<Rightarrow> bucket \<times> log_entry list" where
  "update_metadata_csv w subr new_imgs b = update_metadata (merge_gcs w) subr new_imgs b"

definition update_metadata_csv_local :: "world \<Rightarrow> string \<Rightarrow> image list \<Rightarrow> local_fs \<Rightarrow> local_fs \<times> log_entry list" where
  "update_metadata_csv_local w subr new_imgs fs = update_metadata (merge_local w) subr new_imgs fs"

section \<open>One subreddit, and the local run\<close>

text \<open>
  The two tasks of a subreddit in the DAG, \<^verbatim>\<open>collect_tasks[subr] >> metadata_tasks[subr]\<close>:
  the pass, then the merge of the images it pushed.
\<close>

definition run_subreddit_gcs ::
  "world \<Rightarrow> string \<Rightarrow> submission list \<Rightarrow> bucket \<Rightarrow> error + bucket pass \<times> bucket" where
  "run_subreddit_gcs w subr feed b =
     (case upload_new_images_to_gcs w subr feed b of
        Inl e \<Rightarrow> Inl e
      | Inr p \<Rightarrow> Inr (p, fst (update_metadata_csv w subr (images p) (storage p))))"

text \<open>
  \<^verbatim>\<open>collect_all_subreddit_images_local\<close>, up to the daily log: for each subreddit the pass
  and the merge. \<open>feeds\<close> gives the feed of each subreddit. An exception of a pass ends
  the run.
\<close>

fun collect_subreddits_local ::
  "world \<Rightarrow> (string \<Rightarrow> submission list) \<Rightarrow> string list \<Rightarrow> local_fs pass list \<times> local_fs \<Rightarrow>
     error + local_fs pass list \<times> local_fs" where
  "collect_subreddits_local w feeds [] (all_stats, fs) = Inr (all_stats, fs)"
| "collect_subreddits_local w feeds (subr # rest) (all_stats, fs) =
     (case FLAIR_DICT subr of
        None \<Rightarrow> Inl KeyError
      | Some flair \<Rightarrow>
          (case collect_new_images_from_subreddit_local w subr flair (feeds subr) fs of
             Inl e \<Rightarrow> Inl e
           | Inr p \<Rightarrow>
               collect_subreddits_local w feeds rest
                 (all_stats @ [p], fst (update_metadata_csv_local w subr (images p) (storage p)))))"

definition collect_all_subreddit_images_local ::
  "world \<Rightarrow> (string \<Rightarrow> submission list) \<Rightarrow> local_fs \<Rightarrow> error + local_fs pass list \<times> local_fs" where
  "collect_all_subreddit_images_local w feeds fs = collect_subreddits_local w feeds SUBREDDITS ([], fs)"

section \<open>The content-type stage as the specification words it\<close>

text \<open>
  The specification's stage 2: the path of the content URL ends in one of the supported
  extensions, compared without regard to case. A URL that does not parse has no path.
\<close>

definition spec_content_type_ok :: "string \<Rightarrow> bool" where
  "spec_content_type_ok u =
     (case urlparse_path u of None \<Rightarrow> False | Some path \<Rightarrow> endswith_any (lower path) image_extensions)"

section \<open>Reading aids\<close>

text \<open>
  An item survives the four \<^verbatim>\<open>continue\<close> tests of the loop (flair, image URL, NSFW,
  already downloaded) and reaches the \<^verbatim>\<open>try\<close> block.
\<close>

definition accepted :: "(submission \<Rightarrow> bool) \<Rightarrow> string set \<Rightarrow> submission \<Rightarrow> bool" where
  "accepted flair_ok existing_ids s =
     (flair_ok s \<and> passes_image s \<and> \<not> over_18 s \<and> post_id s \<notin> existing_ids)"

text \<open>The rows of a metadata blob, as \<^verbatim>\<open>df_existing\<close> holds them; none for a missing blob.\<close>

definition table_rows :: "csv_blob option \<Rightarrow> row list" where
  "table_rows m = (case m of Some (Table rs) \<Rightarrow> rs | _ \<Rightarrow> [])"

section \<open>Scenarios\<close>

text \<open>Worlds: all requests and writes succeed; every request times out; every request is answered 404.\<close>

definition reliable_world :: world where
  "reliable_world = \<lparr>http_get = (\<lambda>u. Some (Response 200 ''bytes'')), put_raises = (\<lambda>k. False)\<rparr>"





definition empty_bucket :: bucket where
  "empty_bucket = \<lparr>blobs = Map.empty, metadata = Map.empty\<rparr>"

definition empty_fs :: local_fs where
  "empty_fs = \<lparr>dirs = {}, files = Map.empty, csvs = Map.empty\<rparr>"

text \<open>The folder of \<^verbatim>\<open>dalle2\<close> is there, its \<^verbatim>\<open>metadata.csv\<close> is not.\<close>

definition fs_without_csv :: local_fs where
  "fs_without_csv = \<lparr>dirs = {''dalle2''}, files = Map.empty, csvs = Map.empty\<rparr>"

text \<open>The folder of \<^verbatim>\<open>dalle2\<close> holds an empty \<^verbatim>\<open>metadata.csv\<close>.\<close>

definition fs_empty_csv :: local_fs where
  "fs_empty_csv = \<lparr>dirs = {''dalle2''}, files = Map.empty, csvs = [''dalle2'' \<mapsto> []]\<rparr>"

text \<open>A post of the aggregating subreddit with the DALL-E flair.\<close>

definition aiart_post :: submission where
  "aiart_post = \<lparr>post_id = ''abc'', link_flair_text = Some ''Image - DALL E 3 :a2:'',
     post_url = ''https://i.redd.it/abc.png'', over_18 = False, created_utc = 1700000000\<rparr>"

text \<open>
  The feed of five posts of \<^verbatim>\<open>dalle2\<close>: two with an irrelevant or no flair, one NSFW,
  one already in the metadata, one new. The bucket holds the row of the fourth.
\<close>

definition dalle3_flair :: string where
  "dalle3_flair = ''DALL'' @ [CHR 0xB7] @ ''E 3''"

definition scenario_feed :: "submission list" where
  "scenario_feed =
     [\<lparr>post_id = ''p1'', link_flair_text = Some ''Meme'',
        post_url = ''https://i.redd.it/p1.jpg'', over_18 = False, created_utc = 1700000005\<rparr>,
      \<lparr>post_id = ''p2'', link_flair_text = None,
        post_url = ''https://i.redd.it/p2.jpg'', over_18 = False, created_utc = 1700000004\<rparr>,
      \<lparr>post_id = ''p3'', link_flair_text = Some dalle3_flair,
        post_url = ''https://i.redd.it/p3.png'', over_18 = True, created_utc = 1700000003\<rparr>,
      \<lparr>post_id = ''p4'', link_flair_text = Some dalle3_flair,
        post_url = ''https://i.redd.it/p4.jpg'', over_18 = False, created_utc = 1700000002\<rparr>,
      \<lparr>post_id = ''p5'', link_flair_text = Some dalle3_flair,
        post_url = ''https://i.redd.it/p5.jpeg'', over_18 = False, created_utc = 1700000001\<rparr>]"

definition scenario_row :: row where
  "scenario_row = \<lparr>submission_id = ''p4'', filename = ''img_dalle2_p4.jpg'',
     url = ''https://i.redd.it/p4.jpg'', subreddit = ''dalle2'', date = 1700000002\<rparr>"

definition scenario_bucket :: bucket where
  "scenario_bucket = \<lparr>blobs = Map.empty, metadata = [''dalle2'' \<mapsto> Table [scenario_row]]\<rparr>"






text \<open>Posts whose URL the two readings of the content-type stage judge differently.\<close>

definition upper_png_post :: submission where
  "upper_png_post = \<lparr>post_id = ''u1'', link_flair_text = Some dalle3_flair,
     post_url = ''https://x.test/path/img.PNG'', over_18 = False, created_utc = 1700000000\<rparr>"

definition query_png_post :: submission where
  "query_png_post = \<lparr>post_id = ''u2'', link_flair_text = Some dalle3_flair,
     post_url = ''https://x.test/img.png?width=640'', over_18 = False, created_utc = 1700000000\<rparr>"

definition viewer_post :: submission where
  "viewer_post = \<lparr>post_id = ''u3'', link_flair_text = Some dalle3_flair,
     post_url = ''https://x.test/view?file=a.png'', over_18 = False, created_utc = 1700000000\<rparr>"

text \<open>The new post of the scenario feed, alone.\<close>

definition novel_post :: submission where
  "novel_post = \<lparr>post_id = ''p5'', link_flair_text = Some dalle3_flair,
     post_url = ''https://i.redd.it/p5.jpeg'', over_18 = False, created_utc = 1700000001\<rparr>"

definition novel_row :: row where
  "novel_row = \<lparr>submission_id = ''p5'', filename = ''img_dalle2_p5.jpeg'',
     url = ''https://i.redd.it/p5.jpeg'', subreddit = ''dalle2'', date = 1700000001\<rparr>"

text \<open>The data directory that holds what the scenario bucket holds.\<close>

definition scenario_fs :: local_fs where
  "scenario_fs = \<lparr>dirs = {''dalle2''}, files = Map.empty,
     csvs = [''dalle2'' \<mapsto> [Header, Row scenario_row]]\<rparr>"

text \<open>A bucket whose \<^verbatim>\<open>dalle2/metadata.csv\<close> cannot be read.\<close>

definition unreadable_bucket :: bucket where
  "unreadable_bucket = \<lparr>blobs = Map.empty, metadata = [''dalle2'' \<mapsto> Unreadable]\<rparr>"

text \<open>The feeds of a day on which only the aggregating subreddit has a post.\<close>

definition aiart_feeds :: "string \<Rightarrow> submission list" where
  "aiart_feeds subr = (if subr = AIART_SUBR then [aiart_post] else [])"

definition aiart_row :: row where
  "aiart_row = \<lparr>submission_id = ''abc'', filename = ''img_dalle2_abc.png'',
     url = ''https://i.redd.it/abc.png'', subreddit = ''aiArt'', date = 1700000000\<rparr>"

text \<open>The relevant flairs of \<^verbatim>\<open>dalle2\<close>, as \<^verbatim>\<open>FLAIR_DICT\<close> has them.\<close>

definition dalle_flairs :: "string set" where
  "dalle_flairs = {''DALL'' @ [CHR 0xB7] @ ''E 2'', ''DALL'' @ [CHR 0xB7] @ ''E 3''}"

text \<open>A post whose URL has an upper-case extension in its path and ends in \<^verbatim>\<open>.png\<close>.\<close>

definition upper_query_post :: submission where
  "upper_query_post = \<lparr>post_id = ''u4'', link_flair_text = Some dalle3_flair,
     post_url = ''https://x.test/path/img.PNG?f=.png'', over_18 = False, created_utc = 1700000000\<rparr>"

section \<open>Facts about the string operations\<close>

lemma endswith_iff: "endswith s suf \<longleftrightarrow> (\<exists>stem. s = stem @ suf)"
proof
  assume "endswith s suf"
  then have "s = take (length s - length suf) s @ suf"
    by (metis append_take_drop_id endswith_def)
  then show "\<exists>stem. s = stem @ suf" ..
next
  assume "\<exists>stem. s = stem @ suf"
  then show "endswith s suf" by (auto simp: endswith_def)
qed

lemma passes_image_iff:
  "passes_image s \<longleftrightarrow>
     (\<exists>stem. post_url s = stem @ ''.jpg'' \<or> post_url s = stem @ ''.jpeg'' \<or> post_url s = stem @ ''.png'')"
  by (auto simp: passes_image_def endswith_any_def image_extensions_def endswith_iff)





section \<open>Facts about one pass\<close>

lemma download_Some:
  assumes "download put w subr s st = (Some img, st')"
  shows "\<exists>resp ext target.
           http_get w (post_url s) = Some resp \<and>
           get_file_extension (post_url s) = Some ext \<and>
           target_subr_of subr (link_flair_text s) = Some target \<and>
           put w target (''img_'' @ target @ ''_'' @ post_id s @ ext) ext (content resp) st = (True, st') \<and>
           img = \<lparr>submission_id = post_id s, filename = ''img_'' @ target @ ''_'' @ post_id s @ ext,
                   url = post_url s, subreddit = subr, date = created_utc s, target_subr = target\<rparr>"
  using assms
  by (auto simp: download_def Let_def split: option.splits prod.splits if_splits)


lemma process_counters:
  "checked (process put fo w subr ids p s) = checked p + 1"
  "passed_flair (process put fo w subr ids p s) = passed_flair p + (if fo s then 1 else 0)"
  "passed_image (process put fo w subr ids p s) = passed_image p + (if fo s \<and> passes_image s then 1 else 0)"
  "passed_nsfw (process put fo w subr ids p s) =
     passed_nsfw p + (if fo s \<and> passes_image s \<and> \<not> over_18 s then 1 else 0)"
  "stats_subreddit (process put fo w subr ids p s) = stats_subreddit p"
  by (simp_all add: process_def Let_def split: prod.splits option.splits)

lemma process_rejected:
  "\<not> accepted fo ids s \<Longrightarrow>
     new_images (process put fo w subr ids p s) = new_images p \<and>
     download_errors (process put fo w subr ids p s) = download_errors p \<and>
     images (process put fo w subr ids p s) = images p \<and>
     storage (process put fo w subr ids p s) = storage p"
  by (auto simp: accepted_def process_def Let_def)

lemma process_accepted:
  "accepted fo ids s \<Longrightarrow>
     process put fo w subr ids p s =
       (case download put w subr s (storage p) of
          (Some img, st') \<Rightarrow>
            p\<lparr>checked := checked p + 1, passed_flair := passed_flair p + 1,
              passed_image := passed_image p + 1, passed_nsfw := passed_nsfw p + 1,
              new_images := new_images p + 1, images := images p @ [img], storage := st'\<rparr>
        | (None, st') \<Rightarrow>
            p\<lparr>checked := checked p + 1, passed_flair := passed_flair p + 1,
              passed_image := passed_image p + 1, passed_nsfw := passed_nsfw p + 1,
              download_errors := download_errors p + 1, storage := st'\<rparr>)"
  by (auto simp: accepted_def process_def Let_def split: prod.splits option.splits)

lemma process_outcome:
  "new_images (process put fo w subr ids p s) + download_errors (process put fo w subr ids p s)
     = new_images p + download_errors p + (if accepted fo ids s then 1 else 0)"
  "new_images p \<le> new_images (process put fo w subr ids p s)"
  "download_errors p \<le> download_errors (process put fo w subr ids p s)"
  "new_images (process put fo w subr ids p s) - new_images p
     = int (length (images (process put fo w subr ids p s))) - int (length (images p))"
  by (cases "accepted fo ids s";
      simp add: process_accepted process_rejected split: prod.splits option.splits)+

lemma loop_counters:
  "checked (foldl (process put fo w subr ids) p feed) = checked p + int (length feed)"
  "passed_flair (foldl (process put fo w subr ids) p feed) = passed_flair p + int (length (filter fo feed))"
  "passed_image (foldl (process put fo w subr ids) p feed)
     = passed_image p + int (length (filter (\<lambda>s. fo s \<and> passes_image s) feed))"
  "passed_nsfw (foldl (process put fo w subr ids) p feed)
     = passed_nsfw p + int (length (filter (\<lambda>s. fo s \<and> passes_image s \<and> \<not> over_18 s) feed))"
  "stats_subreddit (foldl (process put fo w subr ids) p feed) = stats_subreddit p"
  by (induction feed arbitrary: p; simp add: process_counters)+


lemma loop_mono:
  "new_images p \<le> new_images (foldl (process put fo w subr ids) p feed) \<and>
   download_errors p \<le> download_errors (foldl (process put fo w subr ids) p feed)"
proof (induction feed arbitrary: p)
  case Nil
  show ?case by simp
next
  case (Cons s feed)
  show ?case
    using Cons.IH [of "process put fo w subr ids p s"] process_outcome(2,3) [of p put fo w subr ids s]
    by (simp; linarith)
qed

lemma loop_new_images_length:
  "new_images (foldl (process put fo w subr ids) p feed) - new_images p
     = int (length (images (foldl (process put fo w subr ids) p feed))) - int (length (images p))"
proof (induction feed arbitrary: p)
  case Nil
  show ?case by simp
next
  case (Cons s feed)
  show ?case
    using Cons.IH [of "process put fo w subr ids p s"] process_outcome(4) [of put fo w subr ids p s]
    by simp
qed

lemma process_images:
  "images (process put fo w subr ids p s) = images p \<or>
   (accepted fo ids s \<and> (\<exists>img st'. download put w subr s (storage p) = (Some img, st') \<and>
      images (process put fo w subr ids p s) = images p @ [img]))"
  by (cases "accepted fo ids s";
      auto simp add: process_accepted process_rejected split: prod.splits option.splits)

lemma loop_images_origin:
  "img \<in> set (images (foldl (process put fo w subr ids) p feed)) \<Longrightarrow>
     img \<in> set (images p) \<or>
     (\<exists>s \<in> set feed. accepted fo ids s \<and> (\<exists>st st'. download put w subr s st = (Some img, st')))"
proof (induction feed arbitrary: p)
  case Nil
  then show ?case by simp
next
  case (Cons s feed)
  from Cons.IH [of "process put fo w subr ids p s"] Cons.prems
  consider "img \<in> set (images (process put fo w subr ids p s))"
    | "\<exists>s \<in> set feed. accepted fo ids s \<and> (\<exists>st st'. download put w subr s st = (Some img, st'))"
    by auto
  then show ?case
  proof cases
    case 1
    then show ?thesis using process_images [of put fo w subr ids p s] by auto
  next
    case 2
    then show ?thesis by auto
  qed
qed

section \<open>Facts about the metadata merge\<close>

lemma group_add_keys:
  "map fst (group_add img gs) =
     (if target_subr img \<in> set (map fst gs) then map fst gs else map fst gs @ [target_subr img])"
proof (induction gs)
  case Nil
  show ?case by simp
next
  case (Cons a gs)
  obtain t g where a: "a = (t, g)" by (cases a)
  show ?case using Cons.IH by (simp add: a)
qed

lemma group_add_distinct:
  "distinct (map fst gs) \<Longrightarrow> distinct (map fst (group_add img gs))"
  by (simp add: group_add_keys)

lemma group_add_member:
  "distinct (map fst gs) \<Longrightarrow>
   (t, g) \<in> set (group_add img gs) \<longleftrightarrow>
     (if t = target_subr img
      then (if t \<in> set (map fst gs) then (\<exists>g0. (t, g0) \<in> set gs \<and> g = g0 @ [img]) else g = [img])
      else (t, g) \<in> set gs)"
proof (induction gs)
  case Nil
  show ?case by auto
next
  case (Cons a gs)
  obtain t0 g0 where a: "a = (t0, g0)" by (cases a)
  from Cons.prems a have d: "distinct (map fst gs)" and n: "t0 \<notin> set (map fst gs)" by auto
  show ?case
    using Cons.IH [OF d] n a by (auto simp: rev_image_eqI)
qed

lemma group_add_grouped:
  assumes d: "distinct (map fst gs)"
    and k: "set (map fst gs) = target_subr ` set imgs"
    and f: "\<And>t g. (t, g) \<in> set gs \<Longrightarrow> g = filter (\<lambda>i. target_subr i = t) imgs"
  shows "distinct (map fst (group_add img gs))"
    and "set (map fst (group_add img gs)) = target_subr ` set (imgs @ [img])"
    and "(t, g) \<in> set (group_add img gs) \<Longrightarrow> g = filter (\<lambda>i. target_subr i = t) (imgs @ [img])"
proof -
  show "distinct (map fst (group_add img gs))" using d by (rule group_add_distinct)
  show "set (map fst (group_add img gs)) = target_subr ` set (imgs @ [img])"
    using k by (auto simp: group_add_keys)
  show "g = filter (\<lambda>i. target_subr i = t) (imgs @ [img])"
    if "(t, g) \<in> set (group_add img gs)"
  proof (cases "t = target_subr img")
    case True
    show ?thesis
    proof (cases "t \<in> set (map fst gs)")
      case True
      with that \<open>t = target_subr img\<close> obtain g0 where "(t, g0) \<in> set gs" "g = g0 @ [img]"
        using group_add_member [OF d, of t g img] by auto
      with f [of t g0] \<open>t = target_subr img\<close> show ?thesis by simp
    next
      case False
      with that \<open>t = target_subr img\<close> have "g = [img]"
        using group_add_member [OF d, of t g img] by auto
      moreover from False k have "filter (\<lambda>i. target_subr i = t) imgs = []"
        by (auto simp: filter_empty_conv)
      ultimately show ?thesis using \<open>t = target_subr img\<close> by simp
    qed
  next
    case False
    with that have "(t, g) \<in> set gs" using group_add_member [OF d, of t g img] by auto
    with f [of t g] False show ?thesis by auto
  qed
qed

lemma images_by_target_grouped:
  "distinct (map fst (images_by_target imgs)) \<and>
   set (map fst (images_by_target imgs)) = target_subr ` set imgs \<and>
   (\<forall>t g. (t, g) \<in> set (images_by_target imgs) \<longrightarrow> g = filter (\<lambda>i. target_subr i = t) imgs)"
proof (induction imgs rule: rev_induct)
  case Nil
  show ?case by (simp add: images_by_target_def)
next
  case (snoc img imgs)
  have e: "images_by_target (imgs @ [img]) = group_add img (images_by_target imgs)"
    by (simp add: images_by_target_def)
  from snoc have d: "distinct (map fst (images_by_target imgs))"
    and k: "set (map fst (images_by_target imgs)) = target_subr ` set imgs"
    and f: "\<And>t g. (t, g) \<in> set (images_by_target imgs) \<Longrightarrow> g = filter (\<lambda>i. target_subr i = t) imgs"
    by blast+
  show ?case
    unfolding e
    using group_add_grouped(1) [OF d k f] group_add_grouped(2) [OF d k f] group_add_grouped(3) [OF d k f]
    by blast
qed
















section \<open>Facts about the counters of a pass\<close>


lemma fresh_pass_simps:
  "checked (fresh_pass subr st) = 0" "passed_flair (fresh_pass subr st) = 0"
  "passed_image (fresh_pass subr st) = 0" "passed_nsfw (fresh_pass subr st) = 0"
  "new_images (fresh_pass subr st) = 0" "download_errors (fresh_pass subr st) = 0"
  "images (fresh_pass subr st) = []" "storage (fresh_pass subr st) = st"
  "stats_subreddit (fresh_pass subr st) = subr"
  by (simp_all add: fresh_pass_def)


lemma gcs_pass_unfold:
  "upload_new_images_to_gcs w subr feed b = Inr p \<Longrightarrow>
     \<exists>flair. FLAIR_DICT subr = Some flair \<and>
       p = foldl (process gcs_put (passes_flair_gcs flair) w subr (fst (get_gcs_submission_ids subr b)))
             (fresh_pass subr b) feed"
  by (auto simp: upload_new_images_to_gcs_def Let_def split: option.splits)

lemma local_pass_unfold:
  "collect_new_images_from_subreddit_local w subr flair feed fs = Inr p \<Longrightarrow>
     \<exists>ids lg. get_existing_image_ids_local subr fs = Inr (ids, lg) \<and>
       p = foldl (process local_put (passes_flair_local flair) w subr ids) (fresh_pass subr fs) feed"
  by (auto simp: collect_new_images_from_subreddit_local_def split: sum.splits prod.splits)


section \<open>Facts about the collected images\<close>

lemma gcs_pass_images:
  assumes "upload_new_images_to_gcs w subr feed b = Inr p" and "img \<in> set (images p)"
  shows "\<exists>flair s st st'. FLAIR_DICT subr = Some flair \<and> s \<in> set feed
           \<and> accepted (passes_flair_gcs flair) (fst (get_gcs_submission_ids subr b)) s
           \<and> download gcs_put w subr s st = (Some img, st')"
proof -
  from gcs_pass_unfold [OF assms(1)] obtain flair where f: "FLAIR_DICT subr = Some flair"
    and p: "p = foldl (process gcs_put (passes_flair_gcs flair) w subr (fst (get_gcs_submission_ids subr b)))
             (fresh_pass subr b) feed"
    by blast
  from assms(2) loop_images_origin [of img gcs_put "passes_flair_gcs flair" w subr
      "fst (get_gcs_submission_ids subr b)" "fresh_pass subr b" feed]
  have "\<exists>s \<in> set feed. accepted (passes_flair_gcs flair) (fst (get_gcs_submission_ids subr b)) s
          \<and> (\<exists>st st'. download gcs_put w subr s st = (Some img, st'))"
    by (simp add: p fresh_pass_simps)
  with f show ?thesis by blast
qed

lemma local_pass_images:
  assumes "collect_new_images_from_subreddit_local w subr flair feed fs = Inr p" and "img \<in> set (images p)"
  shows "\<exists>ids lg s st st'. get_existing_image_ids_local subr fs = Inr (ids, lg) \<and> s \<in> set feed
           \<and> accepted (passes_flair_local flair) ids s
           \<and> download local_put w subr s st = (Some img, st')"
proof -
  from local_pass_unfold [OF assms(1)] obtain ids lg
    where f: "get_existing_image_ids_local subr fs = Inr (ids, lg)"
    and p: "p = foldl (process local_put (passes_flair_local flair) w subr ids) (fresh_pass subr fs) feed"
    by blast
  from assms(2) loop_images_origin [of img local_put "passes_flair_local flair" w subr ids
      "fresh_pass subr fs" feed]
  have "\<exists>s \<in> set feed. accepted (passes_flair_local flair) ids s
          \<and> (\<exists>st st'. download local_put w subr s st = (Some img, st'))"
    by (simp add: p fresh_pass_simps)
  with f show ?thesis by blast
qed

lemma download_filename:
  assumes "download put w subr s st = (Some img, st')"
  shows "\<exists>e. get_file_extension (url img) = Some e
           \<and> filename img = ''img_'' @ target_subr img @ ''_'' @ submission_id img @ e
           \<and> submission_id img = post_id s \<and> url img = post_url s
           \<and> target_subr_of subr (link_flair_text s) = Some (target_subr img)"
  using download_Some [OF assms] by auto

lemma get_file_extension_Some:
  "get_file_extension u = Some e \<Longrightarrow>
     \<exists>path. urlparse_path u = Some path
        \<and> e = (if snd (splitext path) = '''' then ''.jpg'' else lower (snd (splitext path)))"
  by (auto simp: get_file_extension_def Let_def split: option.splits)

lemma after_last_append:
  "c \<notin> set s \<Longrightarrow> after_last c (pre @ s) = after_last c pre @ s"
proof -
  assume "c \<notin> set s"
  then have "takeWhile (\<lambda>x. x \<noteq> c) (rev s @ rev pre) = rev s @ takeWhile (\<lambda>x. x \<noteq> c) (rev pre)"
    by (intro takeWhile_append2) auto
  then show ?thesis by (simp add: after_last_def)
qed

lemma splitext_img_PNG: "snd (splitext (pre @ ''img.PNG'')) = ''.PNG''"
proof -
  have b: "after_last CHR ''/'' (pre @ ''img.PNG'') = after_last CHR ''/'' pre @ ''img.PNG''"
    by (rule after_last_append) simp
  have t: "after_last CHR ''.'' (after_last CHR ''/'' pre @ ''img.PNG'') = ''PNG''"
    by (simp add: after_last_def)
  show ?thesis
    by (simp add: splitext_def b t Let_def)
qed

lemma lower_PNG: "lower ''.PNG'' = ''.png''"
  by code_simp

lemma extension_of_img_PNG:
  "urlparse_path u = Some (pre @ ''img.PNG'') \<Longrightarrow> get_file_extension u = Some ''.png''"
  by (simp add: get_file_extension_def splitext_img_PNG lower_PNG)

lemma AIART_MAP_range: "AIART_MAP t = Some c \<Longrightarrow> c = DALLE_SUBR \<or> c = MIDJ_SUBR"
  by (auto simp: AIART_MAP_def split: if_splits)

lemma target_subr_of_range:
  "target_subr_of subr ft = Some c \<Longrightarrow>
     (subr \<noteq> AIART_SUBR \<longrightarrow> c = subr) \<and> (subr = AIART_SUBR \<longrightarrow> c = DALLE_SUBR \<or> c = MIDJ_SUBR)"
  by (auto simp: target_subr_of_def split: if_splits option.splits dest: AIART_MAP_range)

lemma gcs_put_metadata: "metadata (snd (gcs_put w t f e body b)) = metadata b"
  by (simp add: gcs_put_def Let_def)

lemma download_gcs_metadata:
  "download gcs_put w subr s b = (r, b') \<Longrightarrow> metadata b' = metadata b"
  using gcs_put_metadata [of w _ _ _ _ b]
  by (auto simp: download_def Let_def split: option.splits prod.splits if_splits)
     (metis snd_conv)+

lemma process_gcs_metadata:
  "metadata (storage (process gcs_put fo w subr ids p s)) = metadata (storage p)"
proof (cases "accepted fo ids s")
  case False
  then show ?thesis by (simp add: process_rejected)
next
  case True
  obtain r b' where d: "download gcs_put w subr s (storage p) = (r, b')"
    by (cases "download gcs_put w subr s (storage p)")
  from download_gcs_metadata [OF d] show ?thesis
    by (cases r) (simp_all add: process_accepted [OF True] d)
qed

lemma loop_gcs_metadata:
  "metadata (storage (foldl (process gcs_put fo w subr ids) p feed)) = metadata (storage p)"
  by (induction feed arbitrary: p) (simp_all add: process_gcs_metadata)

lemma distinct_set_singleton:
  assumes "distinct xs" and "set xs = {t}"
  shows "xs = [t]"
proof (cases xs)
  case Nil
  with assms(2) show ?thesis by simp
next
  case (Cons a ys)
  with assms have a: "a = t" and s: "set ys \<subseteq> {t}" and n: "a \<notin> set ys" by auto
  have "ys = []"
  proof (cases ys)
    case Nil
    then show ?thesis .
  next
    case (Cons y zs)
    with s have "y = t" by simp
    with Cons n a show ?thesis by simp
  qed
  with Cons a show ?thesis by simp
qed

lemma single_target_groups:
  assumes "imgs \<noteq> []" and "\<forall>i \<in> set imgs. target_subr i = t"
  shows "images_by_target imgs = [(t, imgs)]"
proof -
  let ?gs = "images_by_target imgs"
  have d: "distinct (map fst ?gs)" and k: "set (map fst ?gs) = target_subr ` set imgs"
    and f: "\<And>c g. (c, g) \<in> set ?gs \<Longrightarrow> g = filter (\<lambda>i. target_subr i = c) imgs"
    using images_by_target_grouped [of imgs] by auto
  from assms have "target_subr ` set imgs = {t}" by (cases imgs) auto
  with k have k': "set (map fst ?gs) = {t}" by simp
  with d have "map fst ?gs = [t]" by (rule distinct_set_singleton)
  then obtain g where g: "?gs = [(t, g)]" by (cases ?gs) auto
  then have "g = filter (\<lambda>i. target_subr i = t) imgs" using f [of t g] by simp
  with assms(2) have "g = imgs" by (simp add: filter_id_conv)
  with g show ?thesis by simp
qed

section \<open>Facts about a second run\<close>

lemma process_images_prefix:
  "set (images p) \<subseteq> set (images (process put fo w subr ids p s))"
  using process_images [of put fo w subr ids p s] by auto

lemma loop_images_prefix:
  "set (images p) \<subseteq> set (images (foldl (process put fo w subr ids) p feed))"
proof (induction feed arbitrary: p)
  case Nil
  show ?case by simp
next
  case (Cons s feed)
  from process_images_prefix [of p put fo w subr ids s]
    Cons.IH [of "process put fo w subr ids p s"]
  show ?case by auto
qed

lemma process_no_error_collects:
  assumes "accepted fo ids s"
    and "download_errors (process put fo w subr ids p s) = download_errors p"
  shows "post_id s \<in> submission_id ` set (images (process put fo w subr ids p s))"
proof -
  obtain r st' where d: "download put w subr s (storage p) = (r, st')"
    by (cases "download put w subr s (storage p)")
  show ?thesis
  proof (cases r)
    case None
    with assms d show ?thesis by (simp add: process_accepted)
  next
    case (Some img)
    with d download_filename [of put w subr s "storage p" img st']
    have "submission_id img = post_id s" by auto
    with Some d assms(1) show ?thesis by (simp add: process_accepted image_iff)
  qed
qed

lemma loop_no_error_collects:
  assumes "download_errors (foldl (process put fo w subr ids) p feed) = download_errors p"
    and "s \<in> set feed" and "accepted fo ids s"
  shows "post_id s \<in> submission_id ` set (images (foldl (process put fo w subr ids) p feed))"
  using assms
proof (induction feed arbitrary: p)
  case Nil
  then show ?case by simp
next
  case (Cons a feed)
  let ?p1 = "process put fo w subr ids p a"
  have m1: "download_errors p \<le> download_errors ?p1" by (rule process_outcome(3))
  have m2: "download_errors ?p1 \<le> download_errors (foldl (process put fo w subr ids) ?p1 feed)"
    using loop_mono [of ?p1 put fo w subr ids feed] by simp
  from Cons.prems(1) m1 m2 have e1: "download_errors ?p1 = download_errors p"
    and e2: "download_errors (foldl (process put fo w subr ids) ?p1 feed) = download_errors ?p1"
    by simp_all
  show ?case
  proof (cases "s = a")
    case True
    with Cons.prems(3) e1 have "post_id s \<in> submission_id ` set (images ?p1)"
      using process_no_error_collects [of fo ids a put w subr p] by simp
    with loop_images_prefix [of ?p1 put fo w subr ids feed] show ?thesis by auto
  next
    case False
    with Cons.prems(2) have "s \<in> set feed" by simp
    from Cons.IH [OF e2 this Cons.prems(3)] show ?thesis by simp
  qed
qed

lemma loop_nothing_accepted:
  assumes "\<forall>s \<in> set feed. \<not> accepted fo ids s"
  shows "new_images (foldl (process put fo w subr ids) p feed) = new_images p
     \<and> download_errors (foldl (process put fo w subr ids) p feed) = download_errors p
     \<and> images (foldl (process put fo w subr ids) p feed) = images p"
  using assms
  by (induction feed arbitrary: p) (simp_all add: process_rejected)

lemma gcs_index_after_run:
  assumes ne: "subr \<noteq> AIART_SUBR"
    and rd: "metadata b subr \<noteq> Some Unreadable"
    and wr: "\<not> put_raises w (subr @ ''/metadata.csv'')"
    and run: "run_subreddit_gcs w subr feed b = Inr (p1, b1)"
  shows "upload_new_images_to_gcs w subr feed b = Inr p1"
    and "fst (get_gcs_submission_ids subr b1)
           = fst (get_gcs_submission_ids subr b) \<union> submission_id ` set (images p1)"
proof -
  from run show up: "upload_new_images_to_gcs w subr feed b = Inr p1"
    by (auto simp: run_subreddit_gcs_def split: sum.splits)
  from run up have b1: "b1 = fst (update_metadata_csv w subr (images p1) (storage p1))"
    by (simp add: run_subreddit_gcs_def)
  from gcs_pass_unfold [OF up] have m: "metadata (storage p1) = metadata b"
    by (auto simp: loop_gcs_metadata fresh_pass_simps)
  have t: "\<forall>i \<in> set (images p1). target_subr i = subr"
  proof
    fix i assume "i \<in> set (images p1)"
    from gcs_pass_images [OF up this] obtain s st st'
      where "download gcs_put w subr s st = (Some i, st')" by blast
    from download_filename [OF this] target_subr_of_range ne show "target_subr i = subr"
      by blast
  qed
  show "fst (get_gcs_submission_ids subr b1)
           = fst (get_gcs_submission_ids subr b) \<union> submission_id ` set (images p1)"
  proof (cases "images p1 = []")
    case True
    with b1 m show ?thesis
      by (simp add: update_metadata_csv_def update_metadata_def get_gcs_submission_ids_def)
  next
    case False
    from single_target_groups [OF False t]
    have g: "images_by_target (images p1) = [(subr, images p1)]" .
    from rd wr m have "metadata b1 subr
        = Some (Table (table_rows (metadata b subr) @ map row_of (images p1)))"
      unfolding b1
      by (simp add: update_metadata_csv_def update_metadata_def False g merge_gcs_def Let_def
          table_rows_def split: option.splits csv_blob.splits)
    moreover have "submission_id ` row_of ` set (images p1) = submission_id ` set (images p1)"
      by (auto simp: row_of_def image_iff)
    ultimately show ?thesis
      by (auto simp: get_gcs_submission_ids_def table_rows_def image_Un
          split: option.splits csv_blob.splits)
  qed
qed

text \<open>
  A subreddit that is its own target: when its metadata blob can be read and written,
  a later pass never collects an identifier that the run before it collected, and when
  that run had no download error, a pass over the same feed collects nothing.
\<close>

lemma rerun_gcs_plain_source:
  assumes ne: "subr \<noteq> AIART_SUBR"
    and rd: "metadata b subr \<noteq> Some Unreadable"
    and wr: "\<not> put_raises w (subr @ ''/metadata.csv'')"
    and run: "run_subreddit_gcs w subr feed b = Inr (p1, b1)"
    and again: "upload_new_images_to_gcs w2 subr feed2 b1 = Inr p2"
  shows "submission_id ` set (images p2) \<inter> submission_id ` set (images p1) = {}"
    and "download_errors p1 = 0 \<Longrightarrow> feed2 = feed \<Longrightarrow>
           new_images p2 = 0 \<and> download_errors p2 = 0 \<and> images p2 = []"
proof -
  note up = gcs_index_after_run(1) [OF ne rd wr run]
  note ix = gcs_index_after_run(2) [OF ne rd wr run]
  show "submission_id ` set (images p2) \<inter> submission_id ` set (images p1) = {}"
  proof -
    have "submission_id i \<notin> submission_id ` set (images p1)" if "i \<in> set (images p2)" for i
    proof -
      from gcs_pass_images [OF again that] obtain flair s st st'
        where a: "accepted (passes_flair_gcs flair) (fst (get_gcs_submission_ids subr b1)) s"
          and d: "download gcs_put w2 subr s st = (Some i, st')"
        by blast
      from download_filename [OF d] have e: "submission_id i = post_id s" by blast
      from a ix have "post_id s \<notin> submission_id ` set (images p1)"
        by (simp add: accepted_def)
      with e show ?thesis by simp
    qed
    then show ?thesis by blast
  qed
  show "new_images p2 = 0 \<and> download_errors p2 = 0 \<and> images p2 = []"
    if z: "download_errors p1 = 0" and same: "feed2 = feed"
  proof -
    from gcs_pass_unfold [OF up] obtain flair where f: "FLAIR_DICT subr = Some flair"
      and p1: "p1 = foldl (process gcs_put (passes_flair_gcs flair) w subr
                  (fst (get_gcs_submission_ids subr b))) (fresh_pass subr b) feed"
      by blast
    from gcs_pass_unfold [OF again] f same
    have p2: "p2 = foldl (process gcs_put (passes_flair_gcs flair) w2 subr
                  (fst (get_gcs_submission_ids subr b1))) (fresh_pass subr b1) feed"
      by auto
    have none: "\<not> accepted (passes_flair_gcs flair) (fst (get_gcs_submission_ids subr b1)) s"
      if s: "s \<in> set feed" for s
    proof
      assume a2: "accepted (passes_flair_gcs flair) (fst (get_gcs_submission_ids subr b1)) s"
      with ix have a1: "accepted (passes_flair_gcs flair) (fst (get_gcs_submission_ids subr b)) s"
        and n: "post_id s \<notin> submission_id ` set (images p1)"
        by (auto simp: accepted_def)
      from z have "download_errors p1 = download_errors (fresh_pass subr b)"
        by (simp add: fresh_pass_simps)
      from loop_no_error_collects [OF this [unfolded p1] s a1] n p1 show False by simp
    qed
    from loop_nothing_accepted [of feed "passes_flair_gcs flair" "fst (get_gcs_submission_ids subr b1)"
        gcs_put w2 subr "fresh_pass subr b1"] none
    show ?thesis by (simp add: p2 fresh_pass_simps)
  qed
qed

section \<open>The claims\<close>

subsection \<open>C1: novelty and re-runs\<close>

text \<open>
  What the filter does guarantee: the identifier of a collected image is not in the set
  that the loader returned for the subreddit of the pass.
\<close>

lemma collected_ids_are_new_for_source:
  "(upload_new_images_to_gcs w subr feed b = Inr p \<and> img \<in> set (images p) \<longrightarrow>
      submission_id img \<notin> fst (get_gcs_submission_ids subr b))
   \<and> (collect_new_images_from_subreddit_local w subr flair feed fs = Inr q \<and> img' \<in> set (images q) \<longrightarrow>
      (\<exists>ids lg. get_existing_image_ids_local subr fs = Inr (ids, lg) \<and> submission_id img' \<notin> ids))"
proof -
  have A: "submission_id img \<notin> fst (get_gcs_submission_ids subr b)"
    if "upload_new_images_to_gcs w subr feed b = Inr p" "img \<in> set (images p)"
  proof -
    from gcs_pass_images [OF that] obtain flair s st st'
      where a: "accepted (passes_flair_gcs flair) (fst (get_gcs_submission_ids subr b)) s"
        and d: "download gcs_put w subr s st = (Some img, st')"
      by blast
    from download_filename [OF d] a show ?thesis by (auto simp: accepted_def)
  qed
  have B: "\<exists>ids lg. get_existing_image_ids_local subr fs = Inr (ids, lg) \<and> submission_id img' \<notin> ids"
    if "collect_new_images_from_subreddit_local w subr flair feed fs = Inr q" "img' \<in> set (images q)"
  proof -
    from local_pass_images [OF that] obtain ids lg s st st'
      where l: "get_existing_image_ids_local subr fs = Inr (ids, lg)"
        and a: "accepted (passes_flair_local flair) ids s"
        and d: "download local_put w subr s st = (Some img', st')"
      by blast
    from download_filename [OF d] a l show ?thesis by (auto simp: accepted_def)
  qed
  show ?thesis using A B by blast
qed

text \<open>
  C1: every accepted item is absent from the Dedup Index of its resolved category, so
  that a second run over an unchanged feed collects nothing, also for the aggregating
  subreddit. The code loads the index of the subreddit of the pass, not of the target:
  for \<^verbatim>\<open>aiArt\<close> it reads \<^verbatim>\<open>aiArt/metadata.csv\<close>, which no merge ever writes, while the rows
  go to \<^verbatim>\<open>dalle2\<close> and \<^verbatim>\<open>midjourney\<close>. Evaluated on one post of \<^verbatim>\<open>aiArt\<close> with the DALL-E
  flair, in a world where every request and write succeeds: after the first run the
  identifier is in the index of \<^verbatim>\<open>dalle2\<close> and not in that of \<^verbatim>\<open>aiArt\<close>; the second run over
  the same feed collects the post again and the store of \<^verbatim>\<open>dalle2\<close> holds its row twice.
  The local run does the same.
\<close>

theorem redirected_items_are_collected_again:
  "(\<exists>p1 b1 p2 b2.
      run_subreddit_gcs reliable_world AIART_SUBR [aiart_post] empty_bucket = Inr (p1, b1)
      \<and> run_subreddit_gcs reliable_world AIART_SUBR [aiart_post] b1 = Inr (p2, b2)
      \<and> new_images p1 = 1
      \<and> ''abc'' \<in> fst (get_gcs_submission_ids DALLE_SUBR b1)
      \<and> ''abc'' \<notin> fst (get_gcs_submission_ids AIART_SUBR b1)
      \<and> new_images p2 = 1
      \<and> metadata b2 DALLE_SUBR = Some (Table [aiart_row, aiart_row]))
   \<and> (\<exists>ps1 fs1 ps2 fs2.
      collect_all_subreddit_images_local reliable_world aiart_feeds empty_fs = Inr (ps1, fs1)
      \<and> collect_all_subreddit_images_local reliable_world aiart_feeds fs1 = Inr (ps2, fs2)
      \<and> map new_images ps1 = [0, 0, 1]
      \<and> map new_images ps2 = [0, 0, 1]
      \<and> csvs fs2 DALLE_SUBR = Some [Header, Row aiart_row, Row aiart_row])"
proof -
  let ?r1 = "run_subreddit_gcs reliable_world AIART_SUBR [aiart_post] empty_bucket"
  let ?r2 = "run_subreddit_gcs reliable_world AIART_SUBR [aiart_post] (snd (projr ?r1))"
  have "\<not> isl ?r1" by code_simp
  then have e1: "?r1 = Inr (fst (projr ?r1), snd (projr ?r1))" by (cases ?r1) auto
  have "\<not> isl ?r2" by code_simp
  then have e2: "?r2 = Inr (fst (projr ?r2), snd (projr ?r2))" by (cases ?r2) auto
  have v1: "new_images (fst (projr ?r1)) = 1" by code_simp
  have v2: "''abc'' \<in> fst (get_gcs_submission_ids DALLE_SUBR (snd (projr ?r1)))" by code_simp
  have v3: "''abc'' \<notin> fst (get_gcs_submission_ids AIART_SUBR (snd (projr ?r1)))" by code_simp
  have v4: "new_images (fst (projr ?r2)) = 1" by code_simp
  have v5: "metadata (snd (projr ?r2)) DALLE_SUBR = Some (Table [aiart_row, aiart_row])" by code_simp
  have G: "\<exists>p1 b1 p2 b2.
      ?r1 = Inr (p1, b1)
      \<and> run_subreddit_gcs reliable_world AIART_SUBR [aiart_post] b1 = Inr (p2, b2)
      \<and> new_images p1 = 1
      \<and> ''abc'' \<in> fst (get_gcs_submission_ids DALLE_SUBR b1)
      \<and> ''abc'' \<notin> fst (get_gcs_submission_ids AIART_SUBR b1)
      \<and> new_images p2 = 1
      \<and> metadata b2 DALLE_SUBR = Some (Table [aiart_row, aiart_row])"
    using e1 e2 v1 v2 v3 v4 v5 by blast
  let ?l1 = "collect_all_subreddit_images_local reliable_world aiart_feeds empty_fs"
  let ?l2 = "collect_all_subreddit_images_local reliable_world aiart_feeds (snd (projr ?l1))"
  have "\<not> isl ?l1" by code_simp
  then have f1: "?l1 = Inr (fst (projr ?l1), snd (projr ?l1))" by (cases ?l1) auto
  have "\<not> isl ?l2" by code_simp
  then have f2: "?l2 = Inr (fst (projr ?l2), snd (projr ?l2))" by (cases ?l2) auto
  have u1: "map new_images (fst (projr ?l1)) = [0, 0, 1]" by code_simp
  have u2: "map new_images (fst (projr ?l2)) = [0, 0, 1]" by code_simp
  have u3: "csvs (snd (projr ?l2)) DALLE_SUBR = Some [Header, Row aiart_row, Row aiart_row]" by code_simp
  have L: "\<exists>ps1 fs1 ps2 fs2.
      ?l1 = Inr (ps1, fs1)
      \<and> collect_all_subreddit_images_local reliable_world aiart_feeds fs1 = Inr (ps2, fs2)
      \<and> map new_images ps1 = [0, 0, 1]
      \<and> map new_images ps2 = [0, 0, 1]
      \<and> csvs fs2 DALLE_SUBR = Some [Header, Row aiart_row, Row aiart_row]"
  proof (intro exI conjI)
    show "?l1 = Inr (fst (projr ?l1), snd (projr ?l1))" by (rule f1)
    show "?l2 = Inr (fst (projr ?l2), snd (projr ?l2))" by (rule f2)
    show "map new_images (fst (projr ?l1)) = [0, 0, 1]" by (rule u1)
    show "map new_images (fst (projr ?l2)) = [0, 0, 1]" by (rule u2)
    show "csvs (snd (projr ?l2)) DALLE_SUBR = Some [Header, Row aiart_row, Row aiart_row]" by (rule u3)
  qed
  show ?thesis using G L by blast
qed

subsection \<open>C2: the loaders on a missing or unreadable store\<close>

text \<open>
  The loader of the scheduled variant never raises: a missing blob and an unreadable
  blob both give the empty set and a warning. The local loader gives the empty set when
  the folder is missing.
\<close>

lemma gcs_loader_fails_open:
  "(metadata b subr = None \<longrightarrow> get_gcs_submission_ids subr b = ({}, [WarnNoMetadata subr]))
   \<and> (metadata b subr = Some Unreadable \<longrightarrow> get_gcs_submission_ids subr b = ({}, [WarnCouldNotRead subr]))
   \<and> (subr \<notin> dirs fs \<longrightarrow> get_existing_image_ids_local subr fs = Inr ({}, [WarnNoMetadata subr]))"
  by (simp add: get_gcs_submission_ids_def get_existing_image_ids_local_def)

text \<open>
  C2: for every category the loader returns the empty set when the store does not exist
  or cannot be read, and never raises. The local loader guards the missing folder only:
  with the folder of \<^verbatim>\<open>dalle2\<close> there and \<^verbatim>\<open>metadata.csv\<close> missing it raises
  \<^verbatim>\<open>FileNotFoundError\<close>, with an empty \<^verbatim>\<open>metadata.csv\<close> it raises \<^verbatim>\<open>EmptyDataError\<close>, and in both
  cases the whole local run ends with that exception, in every world and for every feed.
  The scheduled loader returns the empty set and a warning on an unreadable blob.
\<close>

theorem local_loader_raises:
  "get_existing_image_ids_local DALLE_SUBR fs_without_csv = Inl FileNotFoundError
   \<and> get_existing_image_ids_local DALLE_SUBR fs_empty_csv = Inl EmptyDataError
   \<and> collect_all_subreddit_images_local w feeds fs_without_csv = Inl FileNotFoundError
   \<and> collect_all_subreddit_images_local w feeds fs_empty_csv = Inl EmptyDataError
   \<and> get_gcs_submission_ids DALLE_SUBR unreadable_bucket = ({}, [WarnCouldNotRead DALLE_SUBR])"
  by (simp add: get_existing_image_ids_local_def fs_without_csv_def fs_empty_csv_def DALLE_SUBR_def
      read_submission_ids_def collect_all_subreddit_images_local_def SUBREDDITS_def FLAIR_DICT_def
      MIDJ_SUBR_def AIART_SUBR_def collect_new_images_from_subreddit_local_def
      get_gcs_submission_ids_def unreadable_bucket_def)

subsection \<open>C3: the content-type stage\<close>

text \<open>
  C3, as the specification states it: the stage accepts exactly the items whose URL
  path ends in one of the three extensions, without regard to case. The source tests
  \<^verbatim>\<open>submission.url.endswith(image_extensions)\<close>, on the whole URL and with regard to case.
  The two differ in both directions: an upper-case \<^verbatim>\<open>.PNG\<close> and a query string after
  \<^verbatim>\<open>.png\<close> are rejected by the source, and a URL whose query string ends in \<^verbatim>\<open>.png\<close> is
  accepted by it though its path has no extension.
\<close>

theorem content_type_differs_from_path_reading:
  "spec_content_type_ok (post_url upper_png_post) \<and> \<not> passes_image upper_png_post
   \<and> spec_content_type_ok (post_url query_png_post) \<and> \<not> passes_image query_png_post
   \<and> \<not> spec_content_type_ok (post_url viewer_post) \<and> passes_image viewer_post"
  by code_simp

text \<open>
  C3, amended: the stage accepts an item if and only if its whole content URL, as a
  string, ends in \<^verbatim>\<open>.jpg\<close>, \<^verbatim>\<open>.jpeg\<close> or \<^verbatim>\<open>.png\<close>, compared with regard to case.
\<close>

theorem content_type_stage_is_suffix_of_url:
  "passes_image s \<longleftrightarrow>
     (\<exists>stem. post_url s = stem @ ''.jpg'' \<or> post_url s = stem @ ''.jpeg'' \<or> post_url s = stem @ ''.png'')"
  by (rule passes_image_iff)

subsection \<open>C4: a failing merge and the other categories\<close>




subsection \<open>C5: a failing retrieval\<close>




subsection \<open>C6: the merge only appends\<close>



subsection \<open>C7: the funnel counters\<close>

text \<open>
  C7: \<open>checked\<close> grows by one for every item, before the first stage, and each stage
  counter grows by one exactly when the item passes that stage and all stages before it;
  so after a pass the counters are the numbers of items of the feed that passed. The
  pass of a configured subreddit always returns. On the feed of five posts of \<^verbatim>\<open>dalle2\<close>
  (two with an irrelevant or no flair, one NSFW, one already in the metadata, one new and
  fetchable) the counters are 5, 3, 3, 2, 1 new image and 0 errors, and the merge appends
  exactly one row to the store of \<^verbatim>\<open>dalle2\<close>; the same in the local variant.
\<close>

theorem funnel_counters:
  "(subr \<in> set SUBREDDITS \<longrightarrow> (\<exists>r. upload_new_images_to_gcs w subr feed b = Inr r))
   \<and> (upload_new_images_to_gcs w subr feed b = Inr p \<and> FLAIR_DICT subr = Some flair \<longrightarrow>
        checked p = int (length feed)
        \<and> passed_flair p = int (length (filter (passes_flair_gcs flair) feed))
        \<and> passed_image p = int (length (filter (\<lambda>s. passes_flair_gcs flair s \<and> passes_image s) feed))
        \<and> passed_nsfw p = int (length (filter (\<lambda>s. passes_flair_gcs flair s \<and> passes_image s \<and> \<not> over_18 s) feed)))
   \<and> (collect_new_images_from_subreddit_local w subr fl feed fs = Inr q \<longrightarrow>
        checked q = int (length feed)
        \<and> passed_flair q = int (length (filter (passes_flair_local fl) feed))
        \<and> passed_image q = int (length (filter (\<lambda>s. passes_flair_local fl s \<and> passes_image s) feed))
        \<and> passed_nsfw q = int (length (filter (\<lambda>s. passes_flair_local fl s \<and> passes_image s \<and> \<not> over_18 s) feed)))
   \<and> checked (process put fo w subr ids p0 s) = checked p0 + 1
   \<and> passed_flair (process put fo w subr ids p0 s) = passed_flair p0 + (if fo s then 1 else 0)
   \<and> passed_image (process put fo w subr ids p0 s)
        = passed_image p0 + (if fo s \<and> passes_image s then 1 else 0)
   \<and> passed_nsfw (process put fo w subr ids p0 s)
        = passed_nsfw p0 + (if fo s \<and> passes_image s \<and> \<not> over_18 s then 1 else 0)
   \<and> (\<exists>p' b'. run_subreddit_gcs reliable_world DALLE_SUBR scenario_feed scenario_bucket = Inr (p', b')
        \<and> checked p' = 5 \<and> passed_flair p' = 3 \<and> passed_image p' = 3 \<and> passed_nsfw p' = 2
        \<and> new_images p' = 1 \<and> download_errors p' = 0
        \<and> metadata b' DALLE_SUBR = Some (Table (table_rows (metadata scenario_bucket DALLE_SUBR) @ [novel_row])))
   \<and> (\<exists>q' fs'. collect_subreddits_local reliable_world (\<lambda>subr. scenario_feed) [DALLE_SUBR] ([], scenario_fs)
          = Inr ([q'], fs')
        \<and> checked q' = 5 \<and> passed_flair q' = 3 \<and> passed_image q' = 3 \<and> passed_nsfw q' = 2
        \<and> new_images q' = 1 \<and> download_errors q' = 0
        \<and> csvs fs' DALLE_SUBR = Some ([Header, Row scenario_row] @ [Row novel_row]))"
proof -
  have T: "\<exists>r. upload_new_images_to_gcs w subr feed b = Inr r" if "subr \<in> set SUBREDDITS"
    using that
    by (auto simp: upload_new_images_to_gcs_def SUBREDDITS_def FLAIR_DICT_def Let_def)
  have A: "checked p = int (length feed)
        \<and> passed_flair p = int (length (filter (passes_flair_gcs flair) feed))
        \<and> passed_image p = int (length (filter (\<lambda>s. passes_flair_gcs flair s \<and> passes_image s) feed))
        \<and> passed_nsfw p = int (length (filter (\<lambda>s. passes_flair_gcs flair s \<and> passes_image s \<and> \<not> over_18 s) feed))"
    if "upload_new_images_to_gcs w subr feed b = Inr p" "FLAIR_DICT subr = Some flair"
    using gcs_pass_unfold [OF that(1)] that(2)
    by (auto simp: loop_counters fresh_pass_simps)
  have B: "checked q = int (length feed)
        \<and> passed_flair q = int (length (filter (passes_flair_local fl) feed))
        \<and> passed_image q = int (length (filter (\<lambda>s. passes_flair_local fl s \<and> passes_image s) feed))
        \<and> passed_nsfw q = int (length (filter (\<lambda>s. passes_flair_local fl s \<and> passes_image s \<and> \<not> over_18 s) feed))"
    if "collect_new_images_from_subreddit_local w subr fl feed fs = Inr q"
    using local_pass_unfold [OF that]
    by (auto simp: loop_counters fresh_pass_simps)
  let ?r = "run_subreddit_gcs reliable_world DALLE_SUBR scenario_feed scenario_bucket"
  have r0: "\<not> isl ?r" by code_simp
  have r1: "checked (fst (projr ?r)) = 5 \<and> passed_flair (fst (projr ?r)) = 3
      \<and> passed_image (fst (projr ?r)) = 3 \<and> passed_nsfw (fst (projr ?r)) = 2
      \<and> new_images (fst (projr ?r)) = 1 \<and> download_errors (fst (projr ?r)) = 0"
    by code_simp
  have r2: "metadata (snd (projr ?r)) DALLE_SUBR
      = Some (Table (table_rows (metadata scenario_bucket DALLE_SUBR) @ [novel_row]))"
    by code_simp
  from r0 have r3: "?r = Inr (fst (projr ?r), snd (projr ?r))"
    by (cases ?r) auto
  have S: "\<exists>p' b'. ?r = Inr (p', b')
        \<and> checked p' = 5 \<and> passed_flair p' = 3 \<and> passed_image p' = 3 \<and> passed_nsfw p' = 2
        \<and> new_images p' = 1 \<and> download_errors p' = 0
        \<and> metadata b' DALLE_SUBR = Some (Table (table_rows (metadata scenario_bucket DALLE_SUBR) @ [novel_row]))"
    using r1 r2 r3 by blast
  let ?l = "collect_subreddits_local reliable_world (\<lambda>subr. scenario_feed) [DALLE_SUBR] ([], scenario_fs)"
  have l0: "\<not> isl ?l" by code_simp
  have l1: "length (fst (projr ?l)) = 1" by code_simp
  have l2: "checked (hd (fst (projr ?l))) = 5 \<and> passed_flair (hd (fst (projr ?l))) = 3
      \<and> passed_image (hd (fst (projr ?l))) = 3 \<and> passed_nsfw (hd (fst (projr ?l))) = 2
      \<and> new_images (hd (fst (projr ?l))) = 1 \<and> download_errors (hd (fst (projr ?l))) = 0"
    by code_simp
  have l3: "csvs (snd (projr ?l)) DALLE_SUBR = Some ([Header, Row scenario_row] @ [Row novel_row])"
    by code_simp
  from l1 have l4: "fst (projr ?l) = [hd (fst (projr ?l))]"
    by (cases "fst (projr ?l)") auto
  from l0 l4 have l5: "?l = Inr ([hd (fst (projr ?l))], snd (projr ?l))"
    by (cases ?l) auto
  have L: "\<exists>q' fs'. ?l = Inr ([q'], fs')
        \<and> checked q' = 5 \<and> passed_flair q' = 3 \<and> passed_image q' = 3 \<and> passed_nsfw q' = 2
        \<and> new_images q' = 1 \<and> download_errors q' = 0
        \<and> csvs fs' DALLE_SUBR = Some ([Header, Row scenario_row] @ [Row novel_row])"
    using l2 l3 l5 by blast
  show ?thesis
    using T A B S L process_counters(1-4) [of put fo w subr ids p0 s]
    by blast
qed

theorem funnel_counters_witness:
  "DALLE_SUBR \<in> set SUBREDDITS
   \<and> FLAIR_DICT DALLE_SUBR = Some dalle_flairs
   \<and> upload_new_images_to_gcs reliable_world DALLE_SUBR scenario_feed scenario_bucket
        = Inr (projr (upload_new_images_to_gcs reliable_world DALLE_SUBR scenario_feed scenario_bucket))
   \<and> collect_new_images_from_subreddit_local reliable_world DALLE_SUBR dalle_flairs scenario_feed scenario_fs
        = Inr (projr (collect_new_images_from_subreddit_local reliable_world DALLE_SUBR dalle_flairs
                 scenario_feed scenario_fs))
   \<and> checked (projr (upload_new_images_to_gcs reliable_world DALLE_SUBR scenario_feed scenario_bucket))
        = int (length scenario_feed)
   \<and> passed_flair (projr (upload_new_images_to_gcs reliable_world DALLE_SUBR scenario_feed scenario_bucket))
        = int (length (filter (passes_flair_gcs dalle_flairs) scenario_feed))
   \<and> passed_nsfw (projr (collect_new_images_from_subreddit_local reliable_world DALLE_SUBR dalle_flairs
                 scenario_feed scenario_fs))
        = int (length (filter (\<lambda>s. passes_flair_local dalle_flairs s \<and> passes_image s \<and> \<not> over_18 s)
                 scenario_feed))"
proof -
  have h1: "DALLE_SUBR \<in> set SUBREDDITS"
    by (simp add: SUBREDDITS_def)
  have h2: "FLAIR_DICT DALLE_SUBR = Some dalle_flairs"
    by (simp add: FLAIR_DICT_def dalle_flairs_def DALLE_SUBR_def MIDJ_SUBR_def AIART_SUBR_def)
  have "\<not> isl (upload_new_images_to_gcs reliable_world DALLE_SUBR scenario_feed scenario_bucket)"
    by code_simp
  then have h3: "upload_new_images_to_gcs reliable_world DALLE_SUBR scenario_feed scenario_bucket
        = Inr (projr (upload_new_images_to_gcs reliable_world DALLE_SUBR scenario_feed scenario_bucket))"
    by (cases "upload_new_images_to_gcs reliable_world DALLE_SUBR scenario_feed scenario_bucket") auto
  have "\<not> isl (collect_new_images_from_subreddit_local reliable_world DALLE_SUBR dalle_flairs
                 scenario_feed scenario_fs)"
    by code_simp
  then have h4: "collect_new_images_from_subreddit_local reliable_world DALLE_SUBR dalle_flairs scenario_feed scenario_fs
        = Inr (projr (collect_new_images_from_subreddit_local reliable_world DALLE_SUBR dalle_flairs
                 scenario_feed scenario_fs))"
    by (cases "collect_new_images_from_subreddit_local reliable_world DALLE_SUBR dalle_flairs
                 scenario_feed scenario_fs") auto
  note t = funnel_counters [where subr = DALLE_SUBR and w = reliable_world and feed = scenario_feed
      and b = scenario_bucket and flair = dalle_flairs and fl = dalle_flairs and fs = scenario_fs
      and p = "projr (upload_new_images_to_gcs reliable_world DALLE_SUBR scenario_feed scenario_bucket)"
      and q = "projr (collect_new_images_from_subreddit_local reliable_world DALLE_SUBR dalle_flairs
                 scenario_feed scenario_fs)"
      and put = gcs_put and fo = "passes_flair_gcs dalle_flairs" and ids = "{}"
      and ?p0.0 = "fresh_pass DALLE_SUBR empty_bucket" and s = novel_post]
  from h1 h2 h3 h4 t show ?thesis by blast
qed

subsection \<open>C8: extension and file name\<close>

text \<open>
  C8: the extension is the lower-cased extension of the path of the URL, or \<^verbatim>\<open>.jpg\<close>
  when the path has none; a path ending in \<^verbatim>\<open>img.PNG\<close> gives \<^verbatim>\<open>.png\<close>. Every image that a
  pass collects is named \<^verbatim>\<open>img_\<close>, target category, \<^verbatim>\<open>_\<close>, identifier, extension of its URL.
\<close>

theorem filename_derivation:
  "(get_file_extension u = Some e \<longrightarrow>
      (\<exists>path. urlparse_path u = Some path
          \<and> e = (if snd (splitext path) = '''' then ''.jpg'' else lower (snd (splitext path)))))
   \<and> (urlparse_path u = Some (pre @ ''img.PNG'') \<longrightarrow> get_file_extension u = Some ''.png'')
   \<and> (upload_new_images_to_gcs w subr feed b = Inr p \<and> img \<in> set (images p) \<longrightarrow>
        (\<exists>ext. get_file_extension (url img) = Some ext
           \<and> filename img = ''img_'' @ target_subr img @ ''_'' @ submission_id img @ ext))
   \<and> (collect_new_images_from_subreddit_local w subr flair feed fs = Inr q \<and> img' \<in> set (images q) \<longrightarrow>
        (\<exists>ext. get_file_extension (url img') = Some ext
           \<and> filename img' = ''img_'' @ target_subr img' @ ''_'' @ submission_id img' @ ext))
   \<and> get_file_extension ''https://x.test/path/img.PNG'' = Some ''.png''
   \<and> get_file_extension ''https://x.test/path/img'' = Some ''.jpg''"
proof -
  have A: "\<exists>ext. get_file_extension (url img) = Some ext
           \<and> filename img = ''img_'' @ target_subr img @ ''_'' @ submission_id img @ ext"
    if "upload_new_images_to_gcs w subr feed b = Inr p" "img \<in> set (images p)"
  proof -
    from gcs_pass_images [OF that] obtain s st st'
      where d: "download gcs_put w subr s st = (Some img, st')"
      by blast
    from download_filename [OF d] show ?thesis by blast
  qed
  have B: "\<exists>ext. get_file_extension (url img') = Some ext
           \<and> filename img' = ''img_'' @ target_subr img' @ ''_'' @ submission_id img' @ ext"
    if "collect_new_images_from_subreddit_local w subr flair feed fs = Inr q" "img' \<in> set (images q)"
  proof -
    from local_pass_images [OF that] obtain s st st'
      where d: "download local_put w subr s st = (Some img', st')"
      by blast
    from download_filename [OF d] show ?thesis by blast
  qed
  have C: "get_file_extension ''https://x.test/path/img.PNG'' = Some ''.png''"
    by code_simp
  have D: "get_file_extension ''https://x.test/path/img'' = Some ''.jpg''"
    by code_simp
  show ?thesis
    using A B C D get_file_extension_Some [of u e] extension_of_img_PNG [of u pre]
    by blast
qed

theorem filename_derivation_witness:
  "get_file_extension (post_url upper_query_post) = Some ''.png''
   \<and> urlparse_path (post_url upper_query_post) = Some (''/path/'' @ ''img.PNG'')
   \<and> upload_new_images_to_gcs reliable_world DALLE_SUBR [upper_query_post] empty_bucket
        = Inr (projr (upload_new_images_to_gcs reliable_world DALLE_SUBR [upper_query_post] empty_bucket))
   \<and> images (projr (upload_new_images_to_gcs reliable_world DALLE_SUBR [upper_query_post] empty_bucket))
        = [\<lparr>submission_id = ''u4'', filename = ''img_dalle2_u4.png'',
            url = ''https://x.test/path/img.PNG?f=.png'', subreddit = ''dalle2'',
            date = 1700000000, target_subr = ''dalle2''\<rparr>]
   \<and> (\<exists>ext. get_file_extension ''https://x.test/path/img.PNG?f=.png'' = Some ext
          \<and> ''img_dalle2_u4.png'' = ''img_'' @ ''dalle2'' @ ''_'' @ ''u4'' @ ext)"
proof -
  let ?p = "projr (upload_new_images_to_gcs reliable_world DALLE_SUBR [upper_query_post] empty_bucket)"
  let ?img = "\<lparr>submission_id = ''u4'', filename = ''img_dalle2_u4.png'',
            url = ''https://x.test/path/img.PNG?f=.png'', subreddit = ''dalle2'',
            date = 1700000000, target_subr = ''dalle2''\<rparr>"
  have h1: "urlparse_path (post_url upper_query_post) = Some (''/path/'' @ ''img.PNG'')"
    by code_simp
  have "\<not> isl (upload_new_images_to_gcs reliable_world DALLE_SUBR [upper_query_post] empty_bucket)"
    by code_simp
  then have h2: "upload_new_images_to_gcs reliable_world DALLE_SUBR [upper_query_post] empty_bucket = Inr ?p"
    by (cases "upload_new_images_to_gcs reliable_world DALLE_SUBR [upper_query_post] empty_bucket") auto
  have h3: "images ?p = [?img]"
    by code_simp
  then have h4: "?img \<in> set (images ?p)" by simp
  note t = filename_derivation [where u = "post_url upper_query_post" and pre = "''/path/''"
      and e = "''.png''" and w = reliable_world and subr = DALLE_SUBR and feed = "[upper_query_post]"
      and b = empty_bucket and p = ?p and img = ?img
      and flair = dalle_flairs and fs = empty_fs
      and q = "fresh_pass DALLE_SUBR empty_fs" and img' = ?img]
  from t h1 have c1: "get_file_extension (post_url upper_query_post) = Some ''.png''" by blast
  from t h2 h4 have c2: "\<exists>ext. get_file_extension (url ?img) = Some ext
           \<and> filename ?img = ''img_'' @ target_subr ?img @ ''_'' @ submission_id ?img @ ext"
    by blast
  from c1 h1 h2 h3 c2 show ?thesis by simp
qed

subsection \<open>C9: the target category\<close>

text \<open>
  C9: for a subreddit other than the aggregating one the target is the subreddit itself;
  for the aggregating one it is the entry of \<^verbatim>\<open>AIART_MAP\<close> for the flair, \<^verbatim>\<open>dalle2\<close> for
  \<^verbatim>\<open>Image - DALL E 3 :a2:\<close> and \<^verbatim>\<open>midjourney\<close> for \<^verbatim>\<open>Image - Midjourney :a2:\<close>. Every image
  that a pass collects carries the target resolved from the flair of its post.
\<close>

theorem category_resolution:
  "(subr \<noteq> AIART_SUBR \<longrightarrow> target_subr_of subr ft = Some subr)
   \<and> target_subr_of AIART_SUBR (Some t) = AIART_MAP t
   \<and> target_subr_of AIART_SUBR (Some ''Image - DALL E 3 :a2:'') = Some DALLE_SUBR
   \<and> target_subr_of AIART_SUBR (Some ''Image - Midjourney :a2:'') = Some MIDJ_SUBR
   \<and> (upload_new_images_to_gcs w subr feed b = Inr p \<and> img \<in> set (images p) \<longrightarrow>
        (\<exists>s \<in> set feed. submission_id img = post_id s
            \<and> target_subr_of subr (link_flair_text s) = Some (target_subr img))
        \<and> (subr \<noteq> AIART_SUBR \<longrightarrow> target_subr img = subr))
   \<and> (collect_new_images_from_subreddit_local w subr flair feed fs = Inr q \<and> img' \<in> set (images q) \<longrightarrow>
        (\<exists>s \<in> set feed. submission_id img' = post_id s
            \<and> target_subr_of subr (link_flair_text s) = Some (target_subr img'))
        \<and> (subr \<noteq> AIART_SUBR \<longrightarrow> target_subr img' = subr))"
proof -
  have A: "(\<exists>s \<in> set feed. submission_id img = post_id s
            \<and> target_subr_of subr (link_flair_text s) = Some (target_subr img))
        \<and> (subr \<noteq> AIART_SUBR \<longrightarrow> target_subr img = subr)"
    if "upload_new_images_to_gcs w subr feed b = Inr p" "img \<in> set (images p)"
  proof -
    from gcs_pass_images [OF that] obtain s st st' where s: "s \<in> set feed"
      and d: "download gcs_put w subr s st = (Some img, st')"
      by blast
    from download_filename [OF d] have i: "submission_id img = post_id s"
      and t: "target_subr_of subr (link_flair_text s) = Some (target_subr img)"
      by auto
    from target_subr_of_range [OF t] s i t show ?thesis by blast
  qed
  have B: "(\<exists>s \<in> set feed. submission_id img' = post_id s
            \<and> target_subr_of subr (link_flair_text s) = Some (target_subr img'))
        \<and> (subr \<noteq> AIART_SUBR \<longrightarrow> target_subr img' = subr)"
    if "collect_new_images_from_subreddit_local w subr flair feed fs = Inr q" "img' \<in> set (images q)"
  proof -
    from local_pass_images [OF that] obtain s st st' where s: "s \<in> set feed"
      and d: "download local_put w subr s st = (Some img', st')"
      by blast
    from download_filename [OF d] have i: "submission_id img' = post_id s"
      and t: "target_subr_of subr (link_flair_text s) = Some (target_subr img')"
      by auto
    from target_subr_of_range [OF t] s i t show ?thesis by blast
  qed
  have C: "target_subr_of AIART_SUBR (Some ''Image - DALL E 3 :a2:'') = Some DALLE_SUBR"
    "target_subr_of AIART_SUBR (Some ''Image - Midjourney :a2:'') = Some MIDJ_SUBR"
    by (simp_all add: target_subr_of_def AIART_MAP_def)
  have D: "target_subr_of AIART_SUBR (Some t) = AIART_MAP t"
    by (simp add: target_subr_of_def)
  have E: "subr \<noteq> AIART_SUBR \<Longrightarrow> target_subr_of subr ft = Some subr"
    by (simp add: target_subr_of_def)
  show ?thesis using A B C D E by blast
qed

theorem category_resolution_witness:
  "DALLE_SUBR \<noteq> AIART_SUBR
   \<and> target_subr_of DALLE_SUBR (Some dalle3_flair) = Some DALLE_SUBR
   \<and> upload_new_images_to_gcs reliable_world AIART_SUBR [aiart_post] empty_bucket
        = Inr (projr (upload_new_images_to_gcs reliable_world AIART_SUBR [aiart_post] empty_bucket))
   \<and> images (projr (upload_new_images_to_gcs reliable_world AIART_SUBR [aiart_post] empty_bucket))
        = [\<lparr>submission_id = ''abc'', filename = ''img_dalle2_abc.png'',
            url = ''https://i.redd.it/abc.png'', subreddit = ''aiArt'',
            date = 1700000000, target_subr = ''dalle2''\<rparr>]
   \<and> (\<exists>s \<in> set [aiart_post]. ''abc'' = post_id s
          \<and> target_subr_of AIART_SUBR (link_flair_text s) = Some ''dalle2'')"
proof -
  let ?p = "projr (upload_new_images_to_gcs reliable_world AIART_SUBR [aiart_post] empty_bucket)"
  let ?img = "\<lparr>submission_id = ''abc'', filename = ''img_dalle2_abc.png'',
            url = ''https://i.redd.it/abc.png'', subreddit = ''aiArt'',
            date = 1700000000, target_subr = ''dalle2''\<rparr>"
  have h1: "DALLE_SUBR \<noteq> AIART_SUBR"
    by (simp add: DALLE_SUBR_def AIART_SUBR_def)
  have "\<not> isl (upload_new_images_to_gcs reliable_world AIART_SUBR [aiart_post] empty_bucket)"
    by code_simp
  then have h2: "upload_new_images_to_gcs reliable_world AIART_SUBR [aiart_post] empty_bucket = Inr ?p"
    by (cases "upload_new_images_to_gcs reliable_world AIART_SUBR [aiart_post] empty_bucket") auto
  have h3: "images ?p = [?img]"
    by code_simp
  then have h4: "?img \<in> set (images ?p)" by simp
  note t1 = category_resolution [where subr = DALLE_SUBR and ft = "Some dalle3_flair"
      and w = reliable_world and feed = "[]" and b = empty_bucket
      and p = "fresh_pass DALLE_SUBR empty_bucket" and img = ?img
      and flair = dalle_flairs and fs = empty_fs
      and q = "fresh_pass DALLE_SUBR empty_fs" and img' = ?img]
  note t2 = category_resolution [where subr = AIART_SUBR and ft = "Some dalle3_flair"
      and w = reliable_world and feed = "[aiart_post]" and b = empty_bucket
      and p = ?p and img = ?img
      and flair = dalle_flairs and fs = empty_fs
      and q = "fresh_pass AIART_SUBR empty_fs" and img' = ?img]
  from t1 h1 have c1: "target_subr_of DALLE_SUBR (Some dalle3_flair) = Some DALLE_SUBR" by blast
  from t2 h2 h4 have c2: "\<exists>s \<in> set [aiart_post]. submission_id ?img = post_id s
            \<and> target_subr_of AIART_SUBR (link_flair_text s) = Some (target_subr ?img)"
    by blast
  from h1 c1 h2 h3 c2 show ?thesis by simp
qed

subsection \<open>C10: the funnel chain\<close>



end
